theory Spec2Isabelle
  imports Complex_Main
begin

section \<open>Python values and errors\<close>

text \<open>
  Exceptions of the Python source are values: every function that can raise returns
  \<open>pyerr + 'a\<close>, with \<open>Inl\<close> for the exception.
\<close>

datatype pyerr =
    TypeError
  | AttributeError
  | AssertionError
  | RuntimeError
  | IndexError
  | ValueError
  | UnboundLocalError
  | NotImplementedError

text \<open>
  A loss value is a number or Python's \<open>None\<close>. Tensor scalars and Python floats are
  modelled by real numbers throughout: rounding, infinities and nan are outside the model.
\<close>

datatype pyval = PyNone | PyFloat real

text \<open>
  A Python dict keeps its keys in insertion order, and \<open>items()\<close> iterates in that order:
  an association list. Assigning to a key that is present replaces the value where it
  stands, assigning to a new key appends it.
\<close>

type_synonym pydict = "(string \<times> pyval) list"

fun dict_set :: "(string \<times> 'v) list \<Rightarrow> string \<Rightarrow> 'v \<Rightarrow> (string \<times> 'v) list" where
  "dict_set [] k v = [(k, v)]"
| "dict_set ((k', v') # d) k v =
     (if k' = k then (k, v) # d else (k', v') # dict_set d k v)"

section \<open>loss\_function.py: FESV\_AELoss.colate\_losses\<close>

text \<open>
  The instance: \<open>rank\<close> is set by the constructor; \<open>weight_attrs\<close> are the attributes that
  \<open>getattr(self, f'{k}_weight', None)\<close> can find (the constructor sets none).
\<close>

record FESV_AELoss =
  rank :: int
  weight_attrs :: "string \<rightharpoonup> real"

text \<open>
  Lines 22-27: the weight of component \<open>k\<close>, and what is printed while resolving it.
\<close>

definition loss_weight ::
  "FESV_AELoss \<Rightarrow> (string \<rightharpoonup> real) \<Rightarrow> string \<Rightarrow> real \<times> string list" where
  "loss_weight self loss_scalars k =
     (case loss_scalars (k @ ''_weight'') of
        Some w \<Rightarrow> (w, [])
      | None \<Rightarrow>
          (case weight_attrs self (k @ ''_weight'') of
             Some w \<Rightarrow> (w, [])
           | None \<Rightarrow> (1, [k @ '' is missing loss weight''])))"

text \<open>
  Lines 21-34: the loop over \<open>loss_dict.items()\<close>, threading \<open>loss\<close> and the printed
  lines. \<open>v*loss_scale\<close> raises TypeError when \<open>v\<close> is \<open>None\<close>. The debugging print
  under \<open>if False and ...\<close> never runs.
\<close>

fun colate_loop ::
  "FESV_AELoss \<Rightarrow> (string \<rightharpoonup> real) \<Rightarrow> pydict \<Rightarrow> pyval \<Rightarrow> string list
     \<Rightarrow> pyerr + (pyval \<times> string list)" where
  "colate_loop self loss_scalars [] loss out = Inr (loss, out)"
| "colate_loop self loss_scalars ((k, v) # items) loss out =
     (case loss_weight self loss_scalars k of
        (loss_scale, msg) \<Rightarrow>
          if loss_scale > 0 then
            (case v of
               PyNone \<Rightarrow> Inl TypeError
             | PyFloat x \<Rightarrow>
                 (case loss of
                    PyFloat l \<Rightarrow>
                      colate_loop self loss_scalars items (PyFloat (l + x * loss_scale)) (out @ msg)
                  | PyNone \<Rightarrow>
                      colate_loop self loss_scalars items (PyFloat (x * loss_scale)) (out @ msg)))
          else colate_loop self loss_scalars items loss (out @ msg))"

text \<open>
  Lines 20-36. The result is the mutated \<open>loss_dict\<close> together with the printed lines.
\<close>

definition colate_losses ::
  "FESV_AELoss \<Rightarrow> pydict \<Rightarrow> (string \<rightharpoonup> real) \<Rightarrow> pyval \<Rightarrow> pyerr + (pydict \<times> string list)" where
  "colate_losses self loss_dict loss_scalars loss =
     (case colate_loop self loss_scalars loss_dict loss [] of
        Inl e \<Rightarrow> Inl e
      | Inr (loss', out) \<Rightarrow> Inr (dict_set loss_dict ''loss'' loss', out))"

subsection \<open>The collation policy in the specification's words\<close>

text \<open>
  The override mapping first, then the component's default attribute, then \<open>1.0\<close>.
\<close>

definition spec_weight :: "(string \<rightharpoonup> real) \<Rightarrow> (string \<rightharpoonup> real) \<Rightarrow> string \<Rightarrow> real" where
  "spec_weight overrides defaults k =
     (if overrides (k @ ''_weight'') \<noteq> None then the (overrides (k @ ''_weight''))
      else if defaults (k @ ''_weight'') \<noteq> None then the (defaults (k @ ''_weight''))
      else 1)"

text \<open>The components with strictly positive weight, in the order of the mapping.\<close>

definition spec_positive ::
  "(string \<rightharpoonup> real) \<Rightarrow> (string \<rightharpoonup> real) \<Rightarrow> (string \<times> real) list \<Rightarrow> (string \<times> real) list" where
  "spec_positive overrides defaults d =
     filter (\<lambda>(k, v). 0 < spec_weight overrides defaults k) d"

definition spec_total ::
  "(string \<rightharpoonup> real) \<Rightarrow> (string \<rightharpoonup> real) \<Rightarrow> (string \<times> real) list \<Rightarrow> real" where
  "spec_total overrides defaults d =
     sum_list (map (\<lambda>(k, v). spec_weight overrides defaults k * v)
                   (spec_positive overrides defaults d))"

text \<open>The components for which neither mapping has a weight: one warning each.\<close>

definition spec_warnings ::
  "(string \<rightharpoonup> real) \<Rightarrow> (string \<rightharpoonup> real) \<Rightarrow> (string \<times> 'v) list \<Rightarrow> string list" where
  "spec_warnings overrides defaults d =
     map (\<lambda>(k, v). k @ '' is missing loss weight'')
         (filter (\<lambda>(k, v). overrides (k @ ''_weight'') = None \<and> defaults (k @ ''_weight'') = None) d)"

text \<open>A mapping all of whose values are numbers.\<close>

definition float_dict :: "(string \<times> real) list \<Rightarrow> pydict" where
  "float_dict d = map (\<lambda>(k, v). (k, PyFloat v)) d"

section \<open>Composing calls that can raise\<close>

definition ebind :: "pyerr + 'a \<Rightarrow> ('a \<Rightarrow> pyerr + 'b) \<Rightarrow> pyerr + 'b" where
  "ebind r f = (case r of Inl e \<Rightarrow> Inl e | Inr x \<Rightarrow> f x)"

section \<open>Tensors\<close>

text \<open>
  A torch tensor is its shape and its elements, read at an index (one position for each
  dimension). Only the elements at indices inside the shape are part of the tensor; the
  elements are real numbers. A function that torch computes out of place returns a new
  tensor; an in-place update returns the updated tensor, which replaces the old one in the
  state of its caller.
\<close>

record tensor =
  shape :: "nat list"
  el :: "nat list \<Rightarrow> real"

text \<open>All indices of a shape, in row-major order.\<close>

fun indices :: "nat list \<Rightarrow> nat list list" where
  "indices [] = [[]]"
| "indices (n # ns) = concat (map (\<lambda>i. map ((#) i) (indices ns)) [0..<n])"

text \<open>Two tensors are the same tensor: same shape, same elements inside it.\<close>

definition tensor_eq :: "tensor \<Rightarrow> tensor \<Rightarrow> bool" where
  "tensor_eq a b \<longleftrightarrow> shape a = shape b \<and> (\<forall>ix \<in> set (indices (shape a)). el a ix = el b ix)"

definition zeros :: "nat list \<Rightarrow> tensor" where
  "zeros s = \<lparr>shape = s, el = (\<lambda>ix. 0)\<rparr>"

text \<open>An elementwise function: \<open>torch.tanh\<close>, \<open>torch.sigmoid\<close>, an activation.\<close>

definition tmap :: "(real \<Rightarrow> real) \<Rightarrow> tensor \<Rightarrow> tensor" where
  "tmap f t = \<lparr>shape = shape t, el = (\<lambda>ix. f (el t ix))\<rparr>"

definition sigmoid :: "real \<Rightarrow> real" where
  "sigmoid x = 1 / (1 + exp (- x))"

subsection \<open>Broadcasting\<close>

text \<open>
  Shapes are aligned at their last dimension; two sizes are compatible when they are
  equal or one of them is 1; a missing dimension counts as 1. The shapes are given
  reversed here.
\<close>

fun broadcast_rev :: "nat list \<Rightarrow> nat list \<Rightarrow> nat list option" where
  "broadcast_rev [] ys = Some ys"
| "broadcast_rev (x # xs) [] = Some (x # xs)"
| "broadcast_rev (x # xs) (y # ys) =
     (if x = y \<or> y = 1 then map_option ((#) x) (broadcast_rev xs ys)
      else if x = 1 then map_option ((#) y) (broadcast_rev xs ys)
      else None)"

definition broadcast_shapes :: "nat list \<Rightarrow> nat list \<Rightarrow> nat list option" where
  "broadcast_shapes s1 s2 = map_option rev (broadcast_rev (rev s1) (rev s2))"

text \<open>
  The index at which an operand of shape \<open>s\<close> is read for the index \<open>ix\<close> of the result:
  the last \<open>length s\<close> positions, with 0 where the operand has size 1.
\<close>

definition bindex :: "nat list \<Rightarrow> nat list \<Rightarrow> nat list" where
  "bindex s ix = map2 (\<lambda>d i. if d = 1 then 0 else i) s (drop (length ix - length s) ix)"

definition tbinop :: "(real \<Rightarrow> real \<Rightarrow> real) \<Rightarrow> tensor \<Rightarrow> tensor \<Rightarrow> pyerr + tensor" where
  "tbinop f a b =
     (case broadcast_shapes (shape a) (shape b) of
        None \<Rightarrow> Inl RuntimeError
      | Some s \<Rightarrow>
          Inr \<lparr>shape = s,
               el = (\<lambda>ix. f (el a (bindex (shape a) ix)) (el b (bindex (shape b) ix)))\<rparr>)"

text \<open>\<open>a + b\<close> and \<open>a * b\<close>.\<close>

definition tadd :: "tensor \<Rightarrow> tensor \<Rightarrow> pyerr + tensor" where
  "tadd a b = tbinop (+) a b"

definition tmul :: "tensor \<Rightarrow> tensor \<Rightarrow> pyerr + tensor" where
  "tmul a b = tbinop (*) a b"

text \<open>
  \<open>a += b\<close>: the result is written into \<open>a\<close>, so the broadcast shape must be the shape
  of \<open>a\<close>.
\<close>

definition tiadd :: "tensor \<Rightarrow> tensor \<Rightarrow> pyerr + tensor" where
  "tiadd a b =
     ebind (tadd a b) (\<lambda>r. if shape r = shape a then Inr r else Inl RuntimeError)"

subsection \<open>Slicing\<close>

text \<open>
  A bound of a Python slice on a dimension of size \<open>n\<close>: a negative bound counts from the
  end, and every bound is clipped into \<open>0..n\<close>. An absent bound is \<open>None\<close>.
\<close>

definition slice_bound :: "int \<Rightarrow> nat \<Rightarrow> nat" where
  "slice_bound i n = (if i < 0 then nat (max 0 (int n + i)) else min (nat i) n)"

definition slice_range :: "int option \<Rightarrow> int option \<Rightarrow> nat \<Rightarrow> nat \<times> nat" where
  "slice_range lo hi n =
     ((case lo of None \<Rightarrow> 0 | Some i \<Rightarrow> slice_bound i n),
      (case hi of None \<Rightarrow> n | Some i \<Rightarrow> slice_bound i n))"

text \<open>
  \<open>t[:, lo:hi]\<close>, \<open>t[:, lo:hi, :]\<close>, \<open>t[:, :, lo:hi]\<close>: a slice \<open>lo:hi\<close> of dimension \<open>d\<close>,
  written with \<open>k\<close> index positions. More positions than dimensions is an IndexError.
\<close>

definition tslice :: "nat \<Rightarrow> nat \<Rightarrow> int option \<Rightarrow> int option \<Rightarrow> tensor \<Rightarrow> pyerr + tensor" where
  "tslice k d lo hi t =
     (if length (shape t) < k \<or> length (shape t) \<le> d then Inl IndexError
      else
        (case slice_range lo hi (shape t ! d) of
           (start, stop) \<Rightarrow>
             Inr \<lparr>shape = (shape t)[d := stop - start],
                  el = (\<lambda>ix. el t (ix[d := ix ! d + start]))\<rparr>))"

section \<open>glow\_ax.py: fused\_add\_tanh\_sigmoid\_multiply\<close>

text \<open>Lines 34-40.\<close>

definition fused_add_tanh_sigmoid_multiply :: "tensor \<Rightarrow> tensor \<Rightarrow> int \<Rightarrow> pyerr + tensor" where
  "fused_add_tanh_sigmoid_multiply input_a input_b n_channels =
     ebind (tadd input_a input_b) (\<lambda>in_act.
     ebind (tslice 3 1 None (Some n_channels) in_act) (\<lambda>t_in.
     ebind (tslice 3 1 (Some n_channels) None in_act) (\<lambda>s_in.
       tmul (tmap tanh t_in) (tmap sigmoid s_in))))"

section \<open>The torch functions and layers the modules use\<close>

subsection \<open>Shape changes, padding, concatenation\<close>

text \<open>\<open>t.unsqueeze(d)\<close> for \<open>d\<close> counted from the front: a new dimension of size 1 at \<open>d\<close>.\<close>

definition unsqueeze :: "nat \<Rightarrow> tensor \<Rightarrow> pyerr + tensor" where
  "unsqueeze d t =
     (if length (shape t) < d then Inl IndexError
      else Inr \<lparr>shape = take d (shape t) @ 1 # drop d (shape t),
                el = (\<lambda>ix. el t (take d ix @ drop (Suc d) ix))\<rparr>)"

text \<open>\<open>t.transpose(1, 0)\<close>.\<close>

definition transpose10 :: "tensor \<Rightarrow> pyerr + tensor" where
  "transpose10 t =
     (if length (shape t) < 2 then Inl IndexError
      else Inr \<lparr>shape = shape t ! 1 # shape t ! 0 # drop 2 (shape t),
                el = (\<lambda>ix. el t (ix ! 1 # ix ! 0 # drop 2 ix))\<rparr>)"

text \<open>
  \<open>F.pad(t, (0, 0, p, 0))\<close>: \<open>p\<close> zeros before the first position of the dimension
  before the last one. A negative \<open>p\<close> removes positions instead, and cannot remove more
  than there are.
\<close>

definition pad_top :: "int \<Rightarrow> tensor \<Rightarrow> pyerr + tensor" where
  "pad_top p t =
     (let n = length (shape t); d = n - 2 in
      if n < 2 then Inl RuntimeError
      else if 0 \<le> p then
        Inr \<lparr>shape = (shape t)[d := shape t ! d + nat p],
             el = (\<lambda>ix. if ix ! d < nat p then 0 else el t (ix[d := ix ! d - nat p]))\<rparr>
      else if shape t ! d < nat (- p) then Inl RuntimeError
      else
        Inr \<lparr>shape = (shape t)[d := shape t ! d - nat (- p)],
             el = (\<lambda>ix. el t (ix[d := ix ! d + nat (- p)]))\<rparr>)"

text \<open>
  \<open>torch.cat((a, b), dim=d)\<close>: the two shapes agree outside dimension \<open>d\<close>.
\<close>

definition tcat :: "nat \<Rightarrow> tensor \<Rightarrow> tensor \<Rightarrow> pyerr + tensor" where
  "tcat d a b =
     (if length (shape a) \<le> d \<or> (shape b)[d := shape a ! d] \<noteq> shape a then Inl RuntimeError
      else
        Inr \<lparr>shape = (shape a)[d := shape a ! d + shape b ! d],
             el = (\<lambda>ix. if ix ! d < shape a ! d then el a ix
                        else el b (ix[d := ix ! d - shape a ! d]))\<rparr>)"

text \<open>\<open>torch.cat\<close> of a non-empty list of tensors, from the left.\<close>

fun tcat_list :: "nat \<Rightarrow> tensor list \<Rightarrow> pyerr + tensor" where
  "tcat_list d [] = Inl RuntimeError"
| "tcat_list d [t] = (if length (shape t) \<le> d then Inl RuntimeError else Inr t)"
| "tcat_list d (t # ts) = ebind (tcat_list d ts) (\<lambda>r. tcat d t r)"

text \<open>\<open>audio.new_zeros(size=s)\<close>: a negative size is an error.\<close>

definition new_zeros :: "int list \<Rightarrow> pyerr + tensor" where
  "new_zeros s = (if \<exists>n \<in> set s. n < 0 then Inl RuntimeError else Inr (zeros (map nat s)))"

text \<open>
  \<open>t.chunk(2, 1)\<close>: pieces of \<open>ceil(n / 2)\<close> channels, as many as are needed for the
  \<open>n\<close> channels of \<open>t\<close> (two pieces when \<open>n\<close> is at least 2).
\<close>

definition chunk2 :: "tensor \<Rightarrow> pyerr + tensor list" where
  "chunk2 t =
     (if length (shape t) < 2 then Inl IndexError
      else
        (let n = shape t ! 1; m = (n + 1) div 2 in
         if n = 0 then Inl RuntimeError
         else if n \<le> m then Inr [t]
         else
           Inr [\<lparr>shape = (shape t)[1 := m], el = el t\<rparr>,
                \<lparr>shape = (shape t)[1 := n - m], el = (\<lambda>ix. el t (ix[1 := ix ! 1 + m]))\<rparr>]))"

subsection \<open>Convolution layers\<close>

text \<open>
  \<open>nn.Conv1d\<close> and \<open>nn.Conv2d\<close> with stride 1: the weight of shape
  \<open>[out, in / groups, k]\<close> or \<open>[out, in / groups, kh, kw]\<close>, the bias of shape \<open>[out]\<close>,
  the dilation and the padding of each spatial dimension. A layer wrapped by
  \<open>weight_norm\<close> computes its weight from a direction and a magnitude before each call and
  then convolves with it: the layer is given here by that weight.
\<close>

datatype padding_mode = Zeros | Reflect | Replicate | Circular

record convNd =
  weight :: tensor
  bias :: tensor
  dilation :: "nat list"
  padding :: "nat list"
  padding_mode :: padding_mode
  groups :: nat

text \<open>
  A dimension of size \<open>n\<close> padded by \<open>p\<close> on each side: the position that the padded
  position \<open>i\<close> copies, \<open>None\<close> for a zero. The modes other than zeros need enough input
  to copy from.
\<close>

definition pad_src :: "padding_mode \<Rightarrow> nat \<Rightarrow> nat \<Rightarrow> nat \<Rightarrow> nat option" where
  "pad_src mode p n i =
     (if p \<le> i \<and> i < p + n then Some (i - p)
      else
        (case mode of
           Zeros \<Rightarrow> None
         | Replicate \<Rightarrow> Some (if i < p then 0 else n - 1)
         | Reflect \<Rightarrow> Some (if i < p then p - i else 2 * (n - 1) - (i - p))
         | Circular \<Rightarrow> Some ((i + n - p) mod n)))"

definition pad_ok :: "padding_mode \<Rightarrow> nat \<Rightarrow> nat \<Rightarrow> bool" where
  "pad_ok mode p n =
     (case mode of
        Zeros \<Rightarrow> True
      | Replicate \<Rightarrow> 0 < n
      | Reflect \<Rightarrow> p < n
      | Circular \<Rightarrow> p \<le> n)"

text \<open>The input channel that weight channel \<open>c\<close> of output channel \<open>o\<close> reads.\<close>

definition in_channel :: "convNd \<Rightarrow> nat \<Rightarrow> nat \<Rightarrow> nat" where
  "in_channel m o' c =
     (o' div (shape (weight m) ! 0 div groups m)) * (shape (weight m) ! 1) + c"

text \<open>What every convolution checks of its layer and of the channels of its input.\<close>

definition conv_channels_ok :: "convNd \<Rightarrow> nat \<Rightarrow> bool" where
  "conv_channels_ok m cin \<longleftrightarrow>
     0 < groups m \<and> shape (weight m) ! 0 mod groups m = 0
     \<and> cin = shape (weight m) ! 1 * groups m
     \<and> shape (bias m) = [shape (weight m) ! 0]"

text \<open>
  One element of the output of a convolution: the bias of the output channel and the
  products of the weight with the padded input under the dilated kernel.
\<close>

definition conv1d_el :: "convNd \<Rightarrow> tensor \<Rightarrow> nat list \<Rightarrow> real" where
  "conv1d_el m x ix =
     el (bias m) [ix ! 1] +
     (\<Sum>c < shape (weight m) ! 1. \<Sum>j < shape (weight m) ! 2.
        el (weight m) [ix ! 1, c, j] *
        (case pad_src (padding_mode m) (padding m ! 0) (shape x ! 2)
                (ix ! 2 + j * (dilation m ! 0)) of
           None \<Rightarrow> 0
         | Some t \<Rightarrow> el x [ix ! 0, in_channel m (ix ! 1) c, t]))"

definition conv2d_el :: "convNd \<Rightarrow> tensor \<Rightarrow> nat list \<Rightarrow> real" where
  "conv2d_el m x ix =
     el (bias m) [ix ! 1] +
     (\<Sum>c < shape (weight m) ! 1. \<Sum>i < shape (weight m) ! 2. \<Sum>j < shape (weight m) ! 3.
        el (weight m) [ix ! 1, c, i, j] *
        (case pad_src (padding_mode m) (padding m ! 0) (shape x ! 2)
                (ix ! 2 + i * (dilation m ! 0)) of
           None \<Rightarrow> 0
         | Some h \<Rightarrow>
             (case pad_src (padding_mode m) (padding m ! 1) (shape x ! 3)
                     (ix ! 3 + j * (dilation m ! 1)) of
                None \<Rightarrow> 0
              | Some w \<Rightarrow> el x [ix ! 0, in_channel m (ix ! 1) c, h, w])))"

text \<open>\<open>nn.Conv1d.forward\<close> on an input \<open>[B, C, T]\<close>.\<close>

definition conv1d :: "convNd \<Rightarrow> tensor \<Rightarrow> pyerr + tensor" where
  "conv1d m x =
     (if length (shape x) \<noteq> 3 \<or> length (shape (weight m)) \<noteq> 3
         \<or> length (dilation m) \<noteq> 1 \<or> length (padding m) \<noteq> 1 then Inl RuntimeError
      else
        (let T = shape x ! 2; k = shape (weight m) ! 2; d = dilation m ! 0; p = padding m ! 0 in
         if \<not> conv_channels_ok m (shape x ! 1) \<or> d = 0 \<or> k = 0
            \<or> \<not> pad_ok (padding_mode m) p T \<or> T + 2 * p < d * (k - 1) + 1
         then Inl RuntimeError
         else
           Inr \<lparr>shape = [shape x ! 0, shape (weight m) ! 0, T + 2 * p - d * (k - 1)],
                el = conv1d_el m x\<rparr>))"

text \<open>\<open>nn.Conv2d.forward\<close> on an input \<open>[B, C, H, W]\<close>.\<close>

definition conv2d :: "convNd \<Rightarrow> tensor \<Rightarrow> pyerr + tensor" where
  "conv2d m x =
     (if length (shape x) \<noteq> 4 \<or> length (shape (weight m)) \<noteq> 4
         \<or> length (dilation m) \<noteq> 2 \<or> length (padding m) \<noteq> 2 then Inl RuntimeError
      else
        (let H = shape x ! 2; W = shape x ! 3;
             kh = shape (weight m) ! 2; kw = shape (weight m) ! 3;
             dh = dilation m ! 0; dw = dilation m ! 1;
             ph = padding m ! 0; pw = padding m ! 1 in
         if \<not> conv_channels_ok m (shape x ! 1) \<or> dh = 0 \<or> dw = 0 \<or> kh = 0 \<or> kw = 0
            \<or> \<not> pad_ok (padding_mode m) ph H \<or> \<not> pad_ok (padding_mode m) pw W
            \<or> H + 2 * ph < dh * (kh - 1) + 1 \<or> W + 2 * pw < dw * (kw - 1) + 1
         then Inl RuntimeError
         else
           Inr \<lparr>shape = [shape x ! 0, shape (weight m) ! 0,
                         H + 2 * ph - dh * (kh - 1), W + 2 * pw - dw * (kw - 1)],
                el = conv2d_el m x\<rparr>))"

text \<open>\<open>torch.nn.Sequential\<close>: the layers one after the other.\<close>

fun sequential :: "('l \<Rightarrow> tensor \<Rightarrow> pyerr + tensor) \<Rightarrow> 'l list \<Rightarrow> tensor \<Rightarrow> pyerr + tensor" where
  "sequential f [] x = Inr x"
| "sequential f (l # ls) x = ebind (f l x) (sequential f ls)"

subsection \<open>Embedding and interpolation\<close>

text \<open>
  \<open>nn.Embedding\<close> with the table \<open>[rows, dim]\<close>, applied to a vector of speaker ids: the
  rows of the table for these ids, \<open>[B, dim]\<close>. An id outside the table is an IndexError.
\<close>

definition embedding :: "tensor \<Rightarrow> nat list \<Rightarrow> pyerr + tensor" where
  "embedding table ids =
     (if length (shape table) \<noteq> 2 then Inl RuntimeError
      else if \<exists>i \<in> set ids. shape table ! 0 \<le> i then Inl IndexError
      else Inr \<lparr>shape = [length ids, shape table ! 1],
                el = (\<lambda>ix. el table [ids ! (ix ! 0), ix ! 1])\<rparr>)"

text \<open>
  \<open>e.unsqueeze(-1).repeat(1, 1, n)\<close> for \<open>e\<close> of shape \<open>[B, dim]\<close>: every row repeated
  \<open>n\<close> times along a new last dimension.
\<close>

definition unsqueeze_repeat :: "tensor \<Rightarrow> nat \<Rightarrow> pyerr + tensor" where
  "unsqueeze_repeat e n =
     (if length (shape e) \<noteq> 2 then Inl RuntimeError
      else Inr \<lparr>shape = shape e @ [n], el = (\<lambda>ix. el e (take 2 ix))\<rparr>)"

text \<open>
  \<open>F.interpolate(cond, size=n, mode=..., align_corners=True if mode == 'linear' else None)\<close>
  on a conditioning tensor \<open>[B, C, T]\<close>, for the two modes the specification names.
  Nearest reads position \<open>floor(t * T / n)\<close>; linear with aligned corners reads position
  \<open>t * (T - 1) / (n - 1)\<close> between its two neighbours. Both sizes must be positive.
\<close>

datatype upsample_mode = Nearest | Linear

definition interpolate :: "upsample_mode \<Rightarrow> tensor \<Rightarrow> nat \<Rightarrow> pyerr + tensor" where
  "interpolate mode x n =
     (if length (shape x) \<noteq> 3 then Inl NotImplementedError
      else
        (let T = shape x ! 2 in
         if T = 0 \<or> n = 0 then Inl RuntimeError
         else
           Inr \<lparr>shape = [shape x ! 0, shape x ! 1, n],
                el = (\<lambda>ix.
                  (case mode of
                     Nearest \<Rightarrow> el x [ix ! 0, ix ! 1, min ((ix ! 2 * T) div n) (T - 1)]
                   | Linear \<Rightarrow>
                       (let pos = (if n = 1 then 0 else real (ix ! 2 * (T - 1)) / real (n - 1));
                            i0 = nat \<lfloor>pos\<rfloor>;
                            i1 = min (i0 + 1) (T - 1);
                            l = pos - real i0 in
                        (1 - l) * el x [ix ! 0, ix ! 1, i0] + l * el x [ix ! 0, ix ! 1, i1])))\<rparr>))"

section \<open>glow\_ax.py: the modules WN and WN\_2d\<close>

subsection \<open>Constructor arguments\<close>

text \<open>
  The arguments of the two constructors, under the names of the source. Channel counts,
  sizes and layer counts are natural numbers. \<open>n_layers_dilations_w\<close> and
  \<open>n_layers_dilations_h\<close> are \<open>None\<close>, one number or a list. The freshly drawn values of
  the parameters are an argument of the constructors below: \<open>\<theta> name i ix\<close> is the value
  at index \<open>ix\<close> of parameter \<open>name\<close> of the \<open>i\<close>-th layer of its kind.
\<close>

datatype dilations = DNone | DInt nat | DList "nat list"

record wn_args =
  a_n_in_channels :: nat
  a_cond_in_channels :: nat
  a_cond_layers :: nat
  a_cond_hidden_channels :: nat
  a_cond_kernel_size :: nat
  a_cond_padding_mode :: padding_mode
  a_seperable_conv :: bool
  a_merge_res_skip :: bool
  a_upsample_mode :: upsample_mode
  a_n_layers :: nat
  a_n_channels :: nat
  a_kernel_size :: "nat option"
  a_kernel_size_w :: "nat option"
  a_kernel_size_h :: nat
  a_speaker_embed_dim :: nat
  a_rezero :: bool
  a_cond_activation_func :: string
  a_negative_slope :: "real option"
  a_n_layers_dilations_w :: dilations
  a_n_layers_dilations_h :: dilations
  a_res_skip :: bool
  a_cond_out_activation_func :: bool
  a_upsample_first :: bool

type_synonym init_values = "string \<Rightarrow> nat \<Rightarrow> nat list \<Rightarrow> real"

subsection \<open>The module objects\<close>

text \<open>
  The attributes of a WN instance. \<open>end_conv\<close> is \<open>self.end\<close>. An attribute that the
  constructor sets only on some paths (\<open>speaker_embed\<close>, \<open>cond_activation_func\<close>) is an
  option: \<open>hasattr\<close> is \<open>\<noteq> None\<close>. An entry of \<open>in_layers\<close> is one convolution or the
  \<open>Sequential\<close> of a depthwise and a pointwise one: a list of convolutions.
  WN\_2d has the same attributes (but for \<open>cond_out_activation_func\<close>, which its code
  never reads) and three more, so its record extends the one of WN.
\<close>

record WN =
  n_layers :: nat
  n_channels :: nat
  speaker_embed_dim :: nat
  merge_res_skip :: bool
  upsample_first :: bool
  upsample_mode :: upsample_mode
  start :: convNd
  end_conv :: convNd
  speaker_embed :: "tensor option"
  cond_out_activation_func :: bool
  cond_layers :: "convNd list"
  cond_activation_func :: "(real \<Rightarrow> real) option"
  in_layers :: "convNd list list"
  res_skip_layers :: "convNd list"

record WN_2d = WN +
  kernel_size_h :: nat
  h_dilate :: "nat list option"
  padding_h :: "int list"

subsection \<open>What the two constructors share\<close>

text \<open>A new convolution layer with its drawn values.\<close>

definition new_conv ::
  "init_values \<Rightarrow> string \<Rightarrow> nat \<Rightarrow> nat \<Rightarrow> nat \<Rightarrow> nat list \<Rightarrow> nat list \<Rightarrow> nat list
     \<Rightarrow> padding_mode \<Rightarrow> nat \<Rightarrow> convNd" where
  "new_conv \<theta> name i cin cout ks dil pad mode g =
     \<lparr>weight = \<lparr>shape = cout # (cin div g) # ks, el = \<theta> (name @ ''.weight'') i\<rparr>,
      bias = \<lparr>shape = [cout], el = \<theta> (name @ ''.bias'') i\<rparr>,
      dilation = dil, padding = pad, padding_mode = mode, groups = g\<rparr>"

text \<open>\<open>weight.data.zero_()\<close> and \<open>bias.data.zero_()\<close>.\<close>

definition zero_conv :: "convNd \<Rightarrow> convNd" where
  "zero_conv c = c\<lparr>weight := zeros (shape (weight c)), bias := zeros (shape (bias c))\<rparr>"

text \<open>\<open>str.lower()\<close> on the ASCII letters.\<close>

definition lower_char :: "char \<Rightarrow> char" where
  "lower_char c =
     (if (65::nat) \<le> of_char c \<and> of_char c \<le> (90::nat) then char_of (of_char c + (32::nat)) else c)"

definition relu :: "real \<Rightarrow> real" where
  "relu x = max 0 x"

definition leaky_relu :: "real \<Rightarrow> real \<Rightarrow> real" where
  "leaky_relu slope x = (if 0 \<le> x then x else slope * x)"

text \<open>
  Lines 102-115 and 258-271: the activation chosen by name (the names \<open>lrelu\<close> and \<open>relu\<close>
  select what the source selects for them).
\<close>

definition select_activation :: "string \<Rightarrow> real option \<Rightarrow> pyerr + (real \<Rightarrow> real) option" where
  "select_activation name negative_slope =
     (let n = map lower_char name in
      if n = ''none'' then Inr None
      else if n = ''lrelu'' then Inr (Some relu)
      else if n = ''relu'' then
        (case negative_slope of
           None \<Rightarrow> Inl AssertionError
         | Some s \<Rightarrow> if s = 0 then Inl AssertionError else Inr (Some (leaky_relu s)))
      else if n = ''tanh'' then Inr (Some tanh)
      else if n = ''sigmoid'' then Inr (Some sigmoid)
      else Inl NotImplementedError)"

text \<open>
  Lines 85-100 and 241-256: the conditioning layers, with the channel counts
  \<open>[cond_in] + [hidden] * (cond_layers - 1) + [cond_out]\<close>.
\<close>

definition new_cond_layers :: "wn_args \<Rightarrow> init_values \<Rightarrow> pyerr + convNd list" where
  "new_cond_layers a \<theta> =
     (if a_cond_layers a = 0 then Inr []
      else if a_cond_kernel_size a = 0 then Inl RuntimeError
      else
        (let cond_in_channels = a_cond_in_channels a + a_speaker_embed_dim a;
             cond_kernel_size = 2 * a_cond_kernel_size a - 1;
             cond_pad = (cond_kernel_size - 1) div 2;
             cond_output_channels = 2 * a_n_channels a * a_n_layers a;
             dimensions = [cond_in_channels]
                          @ replicate (a_cond_layers a - 1) (a_cond_hidden_channels a)
                          @ [cond_output_channels];
             in_dims = butlast dimensions;
             out_dims = tl dimensions in
         Inr (map (\<lambda>i. new_conv \<theta> ''cond_layers'' i (in_dims ! i) (out_dims ! i)
                          [cond_kernel_size] [1] [cond_pad] (a_cond_padding_mode a) 1)
                  [0..<length in_dims])))"

text \<open>The dilation of layer \<open>i\<close> from an argument that is \<open>None\<close>, a number or a list.\<close>

definition dilation_w :: "dilations \<Rightarrow> nat \<Rightarrow> pyerr + nat" where
  "dilation_w ds i =
     (case ds of
        DNone \<Rightarrow> Inr (2 ^ i)
      | DInt d \<Rightarrow> Inr d
      | DList l \<Rightarrow> if i < length l then Inr (l ! i) else Inl IndexError)"

definition dilation_h :: "dilations \<Rightarrow> nat \<Rightarrow> pyerr + nat" where
  "dilation_h ds i =
     (case ds of
        DNone \<Rightarrow> Inl TypeError
      | DInt d \<Rightarrow> Inr d
      | DList l \<Rightarrow> if i < length l then Inr (l ! i) else Inl IndexError)"

text \<open>Lines 138-147 and 301-310: the 1x1 res-skip layer of layer \<open>i\<close>, when there is one.\<close>

definition new_res_skip :: "wn_args \<Rightarrow> init_values \<Rightarrow> nat list \<Rightarrow> nat \<Rightarrow> convNd list" where
  "new_res_skip a \<theta> one i =
     (let res_skip_channels =
            (if i < a_n_layers a - 1 \<and> \<not> a_merge_res_skip a then 2 * a_n_channels a
             else a_n_channels a) in
      if a_res_skip a
      then [new_conv \<theta> ''res_skip_layers'' i (a_n_channels a) res_skip_channels one
              (map (\<lambda>_. 1) one) (map (\<lambda>_. 0) one) Zeros 1]
      else [])"

text \<open>The loop of a constructor over the layers: it stops with the first error.\<close>

fun collect :: "(nat \<Rightarrow> pyerr + 'a) \<Rightarrow> nat list \<Rightarrow> pyerr + 'a list" where
  "collect f [] = Inr []"
| "collect f (i # is) = ebind (f i) (\<lambda>x. ebind (collect f is) (\<lambda>xs. Inr (x # xs)))"

subsection \<open>WN.\_\_init\_\_\<close>

text \<open>Lines 121-136: the in-layer of layer \<open>i\<close>.\<close>

definition WN_in_layer :: "wn_args \<Rightarrow> init_values \<Rightarrow> nat \<Rightarrow> nat \<Rightarrow> pyerr + convNd list" where
  "WN_in_layer a \<theta> kernel_size i =
     ebind (dilation_w (a_n_layers_dilations_w a) i) (\<lambda>dilation.
       let padding = (kernel_size * dilation - dilation) div 2 in
       if \<not> a_seperable_conv a \<or> kernel_size = 1
       then Inr [new_conv \<theta> ''in_layers'' i (a_n_channels a) (2 * a_n_channels a)
                   [kernel_size] [dilation] [padding] (a_cond_padding_mode a) 1]
       else if a_n_channels a = 0 then Inl ValueError
       else Inr [new_conv \<theta> ''in_layers.depthwise'' i (a_n_channels a) (a_n_channels a)
                   [kernel_size] [dilation] [padding] (a_cond_padding_mode a) (a_n_channels a),
                 new_conv \<theta> ''in_layers.pointwise'' i (a_n_channels a) (2 * a_n_channels a)
                   [1] [dilation] [0] Zeros 1])"

text \<open>Lines 49-147.\<close>

definition WN_init :: "wn_args \<Rightarrow> init_values \<Rightarrow> pyerr + WN" where
  "WN_init a \<theta> =
     (case (case a_kernel_size_w a of
              None \<Rightarrow> a_kernel_size a
            | Some w \<Rightarrow> if w = 0 then a_kernel_size a else Some w) of
        None \<Rightarrow> Inl TypeError
      | Some kernel_size \<Rightarrow>
          if kernel_size mod 2 \<noteq> 1 then Inl AssertionError
          else if a_n_channels a mod 2 \<noteq> 0 then Inl AssertionError
          else if \<not> ((a_res_skip a \<or> a_merge_res_skip a) \<or> a_n_layers a = 1)
            then Inl AssertionError
          else if a_rezero a then Inl AssertionError
          else
            ebind (new_cond_layers a \<theta>) (\<lambda>conds.
            ebind (if a_cond_layers a = 0 then Inr None
                   else select_activation (a_cond_activation_func a) (a_negative_slope a))
              (\<lambda>act.
            ebind (collect (WN_in_layer a \<theta> kernel_size) [0..<a_n_layers a]) (\<lambda>ins.
              Inr \<lparr>n_layers = a_n_layers a,
                   n_channels = a_n_channels a,
                   speaker_embed_dim = a_speaker_embed_dim a,
                   merge_res_skip = a_merge_res_skip a,
                   upsample_first = a_upsample_first a,
                   upsample_mode = a_upsample_mode a,
                   start = new_conv \<theta> ''start'' 0 (a_n_in_channels a) (a_n_channels a)
                             [1] [1] [0] Zeros 1,
                   end_conv = zero_conv
                             (new_conv \<theta> ''end'' 0 (a_n_channels a) (2 * a_n_in_channels a)
                                [1] [1] [0] Zeros 1),
                   speaker_embed =
                     (if a_speaker_embed_dim a \<noteq> 0
                      then Some \<lparr>shape = [512, a_speaker_embed_dim a],
                                 el = \<theta> ''speaker_embed.weight'' 0\<rparr>
                      else None),
                   cond_out_activation_func = a_cond_out_activation_func a,
                   cond_layers = conds,
                   cond_activation_func = act,
                   in_layers = ins,
                   res_skip_layers =
                     concat (map (new_res_skip a \<theta> [1]) [0..<a_n_layers a])\<rparr>))))"

subsection \<open>WN\_2d.\_\_init\_\_\<close>

text \<open>Lines 281-299: the in-layer of layer \<open>i\<close> with its causal padding.\<close>

definition WN_2d_in_layer ::
  "wn_args \<Rightarrow> init_values \<Rightarrow> nat \<Rightarrow> nat \<Rightarrow> pyerr + (int \<times> convNd list)" where
  "WN_2d_in_layer a \<theta> kernel_size_w i =
     ebind (dilation_h (a_n_layers_dilations_h a) i) (\<lambda>dilation_h.
     ebind (dilation_w (a_n_layers_dilations_w a) i) (\<lambda>dilation_w.
       let padding_w = ((kernel_size_w - 1) * dilation_w) div 2;
           pad_h = (int (a_kernel_size_h a) - 1) * int dilation_h in
       if \<not> a_seperable_conv a \<or> (kernel_size_w = 1 \<and> a_kernel_size_h a = 1)
       then Inr (pad_h,
                 [new_conv \<theta> ''in_layers'' i (a_n_channels a) (2 * a_n_channels a)
                    [a_kernel_size_h a, kernel_size_w] [dilation_h, dilation_w]
                    [0, padding_w] Zeros 1])
       else if a_n_channels a = 0 then Inl ValueError
       else Inr (pad_h,
                 [new_conv \<theta> ''in_layers.depthwise'' i (a_n_channels a) (a_n_channels a)
                    [a_kernel_size_h a, kernel_size_w] [dilation_h, dilation_w]
                    [0, padding_w] Zeros (a_n_channels a),
                  new_conv \<theta> ''in_layers.pointwise'' i (a_n_channels a) (2 * a_n_channels a)
                    [1, 1] [1, 1] [0, 0] Zeros 1])))"

text \<open>Lines 206-310.\<close>

definition WN_2d_init :: "wn_args \<Rightarrow> init_values \<Rightarrow> pyerr + WN_2d" where
  "WN_2d_init a \<theta> =
     (case a_kernel_size_w a of
        None \<Rightarrow> Inl TypeError
      | Some kernel_size_w \<Rightarrow>
          if kernel_size_w mod 2 \<noteq> 1 then Inl AssertionError
          else if a_n_channels a mod 2 \<noteq> 0 then Inl AssertionError
          else if \<not> (a_res_skip a \<or> a_merge_res_skip a) then Inl AssertionError
          else if a_rezero a then Inl AssertionError
          else
            ebind (new_cond_layers a \<theta>) (\<lambda>conds.
            ebind (if a_cond_layers a = 0 then Inr None
                   else select_activation (a_cond_activation_func a) (a_negative_slope a))
              (\<lambda>act.
            ebind (collect (WN_2d_in_layer a \<theta> kernel_size_w) [0..<a_n_layers a]) (\<lambda>ins.
              Inr \<lparr>n_layers = a_n_layers a,
                   n_channels = a_n_channels a,
                   speaker_embed_dim = a_speaker_embed_dim a,
                   merge_res_skip = a_merge_res_skip a,
                   upsample_first = a_upsample_first a,
                   upsample_mode = a_upsample_mode a,
                   start = new_conv \<theta> ''start'' 0 1 (a_n_channels a)
                             [1, 1] [1, 1] [0, 0] Zeros 1,
                   end_conv = zero_conv
                             (new_conv \<theta> ''end'' 0 (a_n_channels a) 2
                                [1, 1] [1, 1] [0, 0] Zeros 1),
                   speaker_embed =
                     (if a_speaker_embed_dim a \<noteq> 0
                      then Some \<lparr>shape = [512, a_speaker_embed_dim a],
                                 el = \<theta> ''speaker_embed.weight'' 0\<rparr>
                      else None),
                   cond_out_activation_func = False,
                   cond_layers = conds,
                   cond_activation_func = act,
                   in_layers = map snd ins,
                   res_skip_layers =
                     concat (map (new_res_skip a \<theta> [1, 1]) [0..<a_n_layers a]),
                   kernel_size_h = a_kernel_size_h a,
                   h_dilate =
                     (case a_n_layers_dilations_h a of
                        DNone \<Rightarrow> None
                      | DInt d \<Rightarrow> Some (replicate (a_n_layers a) d)
                      | DList l \<Rightarrow> Some l),
                   padding_h = map fst ins\<rparr>))))"

subsection \<open>Training\<close>

text \<open>
  Training and loading a checkpoint change the values of the parameters and nothing
  else: every weight, bias and embedding keeps its shape and takes new elements.
\<close>

definition set_conv :: "init_values \<Rightarrow> string \<Rightarrow> nat \<Rightarrow> convNd \<Rightarrow> convNd" where
  "set_conv \<theta> name i c =
     c\<lparr>weight := \<lparr>shape = shape (weight c), el = \<theta> (name @ ''.weight'') i\<rparr>,
       bias := \<lparr>shape = shape (bias c), el = \<theta> (name @ ''.bias'') i\<rparr>\<rparr>"

definition set_convs :: "init_values \<Rightarrow> string \<Rightarrow> convNd list \<Rightarrow> convNd list" where
  "set_convs \<theta> name cs = map (\<lambda>(i, c). set_conv \<theta> name i c) (zip [0..<length cs] cs)"

definition set_parameters :: "init_values \<Rightarrow> ('a WN_scheme) \<Rightarrow> ('a WN_scheme)" where
  "set_parameters \<theta> m =
     m\<lparr>start := set_conv \<theta> ''start'' 0 (start m),
       end_conv := set_conv \<theta> ''end'' 0 (end_conv m),
       speaker_embed :=
         map_option (\<lambda>t. \<lparr>shape = shape t, el = \<theta> ''speaker_embed.weight'' 0\<rparr>) (speaker_embed m),
       cond_layers := set_convs \<theta> ''cond_layers'' (cond_layers m),
       in_layers :=
         map (\<lambda>(i, l). map (\<lambda>(j, c). set_conv \<theta> ''in_layers'' (2 * i + j) c)
                           (zip [0..<length l] l))
             (zip [0..<length (in_layers m)] (in_layers m)),
       res_skip_layers := set_convs \<theta> ''res_skip_layers'' (res_skip_layers m)\<rparr>"

subsection \<open>What the two forward passes share\<close>

text \<open>
  Lines 157-160 and 325-328: the speaker embeddings, repeated along time and concatenated
  to the spectrogram on the channel dimension. \<open>speaker_id\<close> is a vector of ids or
  \<open>None\<close>.
\<close>

definition add_speaker_embeddings ::
  "'a WN_scheme \<Rightarrow> tensor \<Rightarrow> nat list option \<Rightarrow> pyerr + tensor" where
  "add_speaker_embeddings self spect speaker_id =
     (if speaker_embed_dim self \<noteq> 0 \<and> speaker_id \<noteq> None then
        (case speaker_embed self of
           None \<Rightarrow> Inl AttributeError
         | Some table \<Rightarrow>
             ebind (embedding table (the speaker_id)) (\<lambda>speaker_embeddings.
               if length (shape spect) < 3 then Inl IndexError
               else
                 ebind (unsqueeze_repeat speaker_embeddings (shape spect ! 2))
                   (\<lambda>speaker_embeddings. tcat 1 spect speaker_embeddings)))
      else Inr spect)"

text \<open>An index into a Python list.\<close>

definition list_get :: "'a list \<Rightarrow> nat \<Rightarrow> pyerr + 'a" where
  "list_get xs i = (if i < length xs then Inr (xs ! i) else Inl IndexError)"

text \<open>
  \<open>self.res_skip_layers[i](acts) if (hasattr(self, 'res_skip_layers') and
  len(self.res_skip_layers)) else acts\<close>; the attribute always exists.
\<close>

definition res_skip ::
  "(convNd \<Rightarrow> tensor \<Rightarrow> pyerr + tensor) \<Rightarrow> 'a WN_scheme \<Rightarrow> nat \<Rightarrow> tensor \<Rightarrow> pyerr + tensor" where
  "res_skip conv self i acts =
     (if res_skip_layers self \<noteq> []
      then ebind (list_get (res_skip_layers self) i) (\<lambda>layer. conv layer acts)
      else Inr acts)"

subsection \<open>WN.forward\<close>

text \<open>
  Lines 162-165: the conditioning layers; the activation, when there is one, after every
  layer, but after the last one only with \<open>cond_out_activation_func\<close>.
\<close>

fun WN_cond :: "WN \<Rightarrow> nat \<Rightarrow> convNd list \<Rightarrow> tensor \<Rightarrow> pyerr + tensor" where
  "WN_cond self i [] spect = Inr spect"
| "WN_cond self i (layer # layers) spect =
     ebind (conv1d layer spect) (\<lambda>spect.
       WN_cond self (i + 1) layers
         (case cond_activation_func self of
            Some f \<Rightarrow>
              if cond_out_activation_func self \<or> i \<noteq> length (cond_layers self) - 1
              then tmap f spect else spect
          | None \<Rightarrow> spect))"

text \<open>
  Lines 171-195: one round of the loop. The state is \<open>audio\<close> and \<open>output\<close>; \<open>output\<close> has
  no value before the first round.
\<close>

definition WN_layer :: "WN \<Rightarrow> tensor \<Rightarrow> nat \<Rightarrow> tensor \<times> tensor option \<Rightarrow> pyerr + tensor \<times> tensor option" where
  "WN_layer self spect i st =
     (case st of (audio, output) \<Rightarrow>
      ebind (tslice 3 1 (Some (int (i * 2 * n_channels self)))
                        (Some (int ((i + 1) * 2 * n_channels self))) spect) (\<lambda>spec.
      ebind (list_get (in_layers self) i) (\<lambda>in_layer.
      ebind (sequential conv1d in_layer audio) (\<lambda>in_act.
      ebind (fused_add_tanh_sigmoid_multiply in_act spec (int (n_channels self))) (\<lambda>acts.
      ebind (res_skip conv1d self i acts) (\<lambda>res_skip_acts.
        if i = 0 then
          (if \<not> merge_res_skip self \<and> int i < int (n_layers self) - 1 then
             ebind (tslice 3 1 None (Some (int (n_channels self))) res_skip_acts) (\<lambda>res.
             ebind (tadd audio res) (\<lambda>audio.
             ebind (tslice 3 1 (Some (int (n_channels self))) None res_skip_acts) (\<lambda>skip.
               Inr (audio, Some skip))))
           else Inr (audio, Some res_skip_acts))
        else
          (case output of
             None \<Rightarrow> Inl UnboundLocalError
           | Some output \<Rightarrow>
               if \<not> merge_res_skip self \<and> int i < int (n_layers self) - 1 then
                 ebind (tslice 3 1 None (Some (int (n_channels self))) res_skip_acts) (\<lambda>res.
                 ebind (tadd audio res) (\<lambda>audio.
                 ebind (tslice 3 1 (Some (int (n_channels self))) None res_skip_acts) (\<lambda>skip.
                 ebind (tadd output skip) (\<lambda>output.
                   Inr (audio, Some output)))))
               else
                 ebind (tadd output res_skip_acts) (\<lambda>output.
                   Inr (audio, Some output)))))))))"

text \<open>A \<open>for i in range(...)\<close> loop over a state: it stops with the first error.\<close>

fun for_range :: "(nat \<Rightarrow> 's \<Rightarrow> pyerr + 's) \<Rightarrow> nat list \<Rightarrow> 's \<Rightarrow> pyerr + 's" where
  "for_range body [] st = Inr st"
| "for_range body (i # is) st = ebind (body i st) (for_range body is)"

text \<open>
  Lines 154-197. The result is the tuple that \<open>chunk(2, 1)\<close> returns.
\<close>

definition WN_forward :: "WN \<Rightarrow> tensor \<Rightarrow> tensor \<Rightarrow> nat list option \<Rightarrow> pyerr + tensor list" where
  "WN_forward self audio spect speaker_id =
     ebind (conv1d (start self) audio) (\<lambda>audio.
     ebind (add_speaker_embeddings self spect speaker_id) (\<lambda>spect.
     ebind (WN_cond self 0 (cond_layers self) spect) (\<lambda>spect.
     ebind (if \<not> upsample_first self then
              ebind (interpolate (upsample_mode self) spect (shape audio ! 2)) (\<lambda>spect.
                if shape audio ! 2 = shape spect ! 2 then Inr spect else Inl AssertionError)
            else Inr spect) (\<lambda>spect.
     ebind (for_range (WN_layer self spect) [0..<n_layers self] (audio, None)) (\<lambda>st.
       (case snd st of
          None \<Rightarrow> Inl UnboundLocalError
        | Some output \<Rightarrow> ebind (conv1d (end_conv self) output) chunk2))))))"

subsection \<open>WN\_2d.forward\<close>

text \<open>
  The state of the loop of lines 340-383: the local variables \<open>audio\<close>, \<open>output\<close> and
  \<open>spec\<close> (which has no value before its first assignment), and the two lists of the
  caller, which the loop updates in place (the fields carry the prefix \<open>l_\<close>). A list of queues is \<open>None\<close> or a list whose
  entries are \<open>None\<close> or a tensor.
\<close>

type_synonym queues = "tensor option list option"

record loop_state =
  l_audio :: tensor
  l_output :: tensor
  l_spec :: "tensor option"
  l_audio_queues :: queues
  l_spect_queues :: queues

text \<open>\<open>(spect_queues is None) or (any([x is None for x in spect_queues]))\<close>.\<close>

definition no_spect_queue :: "queues \<Rightarrow> bool" where
  "no_spect_queue q = (case q of None \<Rightarrow> True | Some xs \<Rightarrow> list_ex (\<lambda>x. x = None) xs)"

text \<open>Lines 330-333: the conditioning layers, each followed by the activation if any.\<close>

fun WN_2d_cond :: "WN_2d \<Rightarrow> convNd list \<Rightarrow> tensor \<Rightarrow> pyerr + tensor" where
  "WN_2d_cond self [] spect = Inr spect"
| "WN_2d_cond self (layer # layers) spect =
     ebind (conv1d layer spect) (\<lambda>spect.
       WN_2d_cond self layers
         (case cond_activation_func self of Some f \<Rightarrow> tmap f spect | None \<Rightarrow> spect))"

text \<open>Lines 324-338: the spectrogram is processed unless every queue holds a slice.\<close>

definition WN_2d_spect :: "WN_2d \<Rightarrow> tensor \<Rightarrow> tensor \<Rightarrow> nat list option \<Rightarrow> queues \<Rightarrow> pyerr + tensor" where
  "WN_2d_spect self audio spect speaker_id spect_queues =
     (if no_spect_queue spect_queues then
        ebind (add_speaker_embeddings self spect speaker_id) (\<lambda>spect.
        ebind (WN_2d_cond self (cond_layers self) spect) (\<lambda>spect.
          if \<not> upsample_first self then
            ebind (interpolate (upsample_mode self) spect (shape audio ! 3)) (\<lambda>spect.
            ebind (unsqueeze 2 spect) (\<lambda>spect.
              if shape audio ! 3 = shape spect ! 3 then Inr spect else Inl AssertionError))
          else Inr spect))
      else Inr spect)"

text \<open>Lines 341-348: the conditioning slice of layer \<open>i\<close>.\<close>

definition WN_2d_spec :: "WN_2d \<Rightarrow> tensor \<Rightarrow> nat \<Rightarrow> loop_state \<Rightarrow> pyerr + loop_state" where
  "WN_2d_spec self spect i st =
     (if no_spect_queue (l_spect_queues st) then
        ebind (tslice 2 1 (Some (int (i * 2 * n_channels self)))
                          (Some (int ((i + 1) * 2 * n_channels self))) spect)
          (\<lambda>s. Inr (st\<lparr>l_spec := Some s\<rparr>))
      else
        (case l_spect_queues st of
           None \<Rightarrow> Inl TypeError
         | Some qs \<Rightarrow>
             ebind (list_get qs i) (\<lambda>q.
               (case q of
                  None \<Rightarrow>
                    (case l_spec st of
                       None \<Rightarrow> Inl UnboundLocalError
                     | Some s \<Rightarrow> Inr (st\<lparr>l_spect_queues := Some (qs[i := Some s])\<rparr>))
                | Some s \<Rightarrow> Inr (st\<lparr>l_spec := Some s\<rparr>)))))"

text \<open>
  Lines 350-359: the input of the causal convolution of layer \<open>i\<close>, and the state with the
  queue of the layer updated.
\<close>

definition WN_2d_cpad :: "WN_2d \<Rightarrow> nat \<Rightarrow> loop_state \<Rightarrow> pyerr + tensor \<times> loop_state" where
  "WN_2d_cpad self i st =
     (case l_audio_queues st of
        None \<Rightarrow>
          ebind (list_get (padding_h self) i) (\<lambda>p.
          ebind (pad_top p (l_audio st)) (\<lambda>audio_cpad. Inr (audio_cpad, st)))
      | Some qs \<Rightarrow>
          ebind (list_get qs i) (\<lambda>q.
          ebind (case q of
                   None \<Rightarrow>
                     if length (shape (l_audio st)) \<noteq> 4 then Inl ValueError
                     else
                       ebind (list_get (padding_h self) i) (\<lambda>p.
                         new_zeros [int (shape (l_audio st) ! 0), int (shape (l_audio st) ! 1),
                                    p, int (shape (l_audio st) ! 3)])
                 | Some t \<Rightarrow> Inr t) (\<lambda>queue.
          ebind (tcat 2 queue (l_audio st)) (\<lambda>joined.
          ebind (list_get (padding_h self) i) (\<lambda>p.
          ebind (tslice 3 2 (Some (- (p + 1))) None joined) (\<lambda>audio_cpad.
            if int (shape audio_cpad ! 2) = p + 1
            then Inr (audio_cpad, st\<lparr>l_audio_queues := Some (qs[i := Some audio_cpad])\<rparr>)
            else Inl AssertionError))))))"

text \<open>Lines 372-383: the residual and the skip accumulation, in place.\<close>

definition WN_2d_accumulate :: "WN_2d \<Rightarrow> nat \<Rightarrow> tensor \<Rightarrow> loop_state \<Rightarrow> pyerr + loop_state" where
  "WN_2d_accumulate self i res_skip_acts st =
     (if i = 0 then
        (if \<not> merge_res_skip self \<and> int i < int (n_layers self) - 1 then
           ebind (tslice 3 1 None (Some (int (n_channels self))) res_skip_acts) (\<lambda>res.
           ebind (tiadd (l_audio st) res) (\<lambda>audio'.
           ebind (tslice 3 1 (Some (int (n_channels self))) None res_skip_acts) (\<lambda>skip.
             Inr (st\<lparr>l_audio := audio', l_output := skip\<rparr>))))
         else Inr (st\<lparr>l_output := res_skip_acts\<rparr>))
      else
        (if \<not> merge_res_skip self \<and> int i < int (n_layers self) - 1 then
           ebind (tslice 3 1 None (Some (int (n_channels self))) res_skip_acts) (\<lambda>res.
           ebind (tiadd (l_audio st) res) (\<lambda>audio'.
           ebind (tslice 3 1 (Some (int (n_channels self))) None res_skip_acts) (\<lambda>skip.
           ebind (tiadd (l_output st) skip) (\<lambda>output'.
             Inr (st\<lparr>l_audio := audio', l_output := output'\<rparr>)))))
         else
           ebind (tiadd (l_output st) res_skip_acts) (\<lambda>output'.
             Inr (st\<lparr>l_output := output'\<rparr>))))"

text \<open>
  Lines 361-383: the in-layer on the window, the gate with the conditioning slice, the
  res-skip layer and the accumulation.
\<close>

definition WN_2d_tail :: "WN_2d \<Rightarrow> nat \<Rightarrow> tensor \<Rightarrow> loop_state \<Rightarrow> pyerr + loop_state" where
  "WN_2d_tail self i audio_cpad st =
     ebind (list_get (in_layers self) i) (\<lambda>in_layer.
     ebind (sequential conv2d in_layer audio_cpad) (\<lambda>acts.
     (case l_spec st of
        None \<Rightarrow> Inl UnboundLocalError
      | Some s \<Rightarrow>
          ebind (fused_add_tanh_sigmoid_multiply acts s (int (n_channels self))) (\<lambda>acts.
          ebind (res_skip conv2d self i acts) (\<lambda>res_skip_acts.
            WN_2d_accumulate self i res_skip_acts st)))))"

text \<open>Lines 340-383: one round of the loop.\<close>

definition WN_2d_layer :: "WN_2d \<Rightarrow> tensor \<Rightarrow> nat \<Rightarrow> loop_state \<Rightarrow> pyerr + loop_state" where
  "WN_2d_layer self spect i st =
     ebind (WN_2d_spec self spect i st) (\<lambda>st.
     ebind (WN_2d_cpad self i st) (\<lambda>(audio_cpad, st).
       WN_2d_tail self i audio_cpad st))"

text \<open>
  What \<open>forward\<close> returns: the output tensor alone, or a Python list of the output
  tensor and the lists of queues that were passed in.
\<close>

datatype item = ITensor tensor | IQueues "tensor option list"

datatype returned = RTensor tensor | RList "item list"

text \<open>
  Lines 385-392. Without \<open>audio_queues\<close> the variable \<open>func_out\<close> is still a tensor
  when \<open>func_out.append(spect_queues)\<close> runs, and a tensor has no \<open>append\<close>.
\<close>

definition WN_2d_return :: "tensor \<Rightarrow> loop_state \<Rightarrow> pyerr + returned" where
  "WN_2d_return func_out st =
     (case l_audio_queues st of
        Some aq \<Rightarrow>
          (case l_spect_queues st of
             Some sq \<Rightarrow> Inr (RList [ITensor func_out, IQueues aq, IQueues sq])
           | None \<Rightarrow> Inr (RList [ITensor func_out, IQueues aq]))
      | None \<Rightarrow>
          (case l_spect_queues st of
             Some sq \<Rightarrow> Inl AttributeError
           | None \<Rightarrow> Inr (RTensor func_out)))"

text \<open>
  Lines 317-322: the state in which the loop starts; \<open>audio\<close> is the output of the
  start layer.
\<close>

definition WN_2d_initial :: "WN_2d \<Rightarrow> tensor \<Rightarrow> queues \<Rightarrow> queues \<Rightarrow> loop_state" where
  "WN_2d_initial self audio audio_queues spect_queues =
     \<lparr>l_audio = audio,
      l_output = (if merge_res_skip self then audio else zeros (shape audio)),
      l_spec = None,
      l_audio_queues = audio_queues,
      l_spect_queues = spect_queues\<rparr>"

text \<open>Lines 316-392.\<close>

definition WN_2d_forward ::
  "WN_2d \<Rightarrow> tensor \<Rightarrow> tensor \<Rightarrow> nat list option \<Rightarrow> queues \<Rightarrow> queues \<Rightarrow> pyerr + returned" where
  "WN_2d_forward self audio0 spect0 speaker_id audio_queues0 spect_queues0 =
     ebind (unsqueeze 1 audio0) (\<lambda>audio1.
     ebind (conv2d (start self) audio1) (\<lambda>audio2.
     ebind (WN_2d_spect self audio2 spect0 speaker_id spect_queues0) (\<lambda>spect.
     ebind (for_range (WN_2d_layer self spect) [0..<n_layers self]
              (WN_2d_initial self audio2 audio_queues0 spect_queues0)) (\<lambda>st.
     ebind (conv2d (end_conv self) (l_output st)) (\<lambda>y.
     ebind (transpose10 y) (\<lambda>func_out.
       WN_2d_return func_out st))))))"

subsection \<open>Streaming inference\<close>

text \<open>
  The caller of the streaming mode: one call of \<open>forward\<close> for each slice of the causal
  dimension, the list of audio queues returned by a call passed to the next one. The
  result is the list of the outputs of the calls and the last list of queues.
\<close>

text \<open>\<open>out, audio_queues = forward(...)\<close>: the result must be a list of these two.\<close>

definition unpack2 :: "returned \<Rightarrow> pyerr + tensor \<times> tensor option list" where
  "unpack2 r =
     (case r of
        RTensor t \<Rightarrow> Inl ValueError
      | RList xs \<Rightarrow>
          if length xs \<noteq> 2 then Inl ValueError
          else
            (case xs ! 0 of
               IQueues q \<Rightarrow> Inl TypeError
             | ITensor out \<Rightarrow>
                 (case xs ! 1 of
                    ITensor t \<Rightarrow> Inl TypeError
                  | IQueues queues \<Rightarrow> Inr (out, queues))))"

fun stream ::
  "WN_2d \<Rightarrow> tensor list \<Rightarrow> tensor \<Rightarrow> nat list option \<Rightarrow> tensor option list
     \<Rightarrow> pyerr + tensor list \<times> tensor option list" where
  "stream self [] spect speaker_id queues = Inr ([], queues)"
| "stream self (slice # slices) spect speaker_id queues =
     ebind (WN_2d_forward self slice spect speaker_id (Some queues) None) (\<lambda>r.
     ebind (unpack2 r) (\<lambda>(out, queues').
     ebind (stream self slices spect speaker_id queues') (\<lambda>(outs, last).
       Inr (out # outs, last))))"

text \<open>The slice \<open>audio[:, k:k+1, :]\<close> of an input \<open>[B, n, T]\<close>, for every \<open>k\<close>.\<close>

definition slices :: "tensor \<Rightarrow> pyerr + tensor list" where
  "slices audio =
     (if length (shape audio) \<noteq> 3 then Inl IndexError
      else collect (\<lambda>k. tslice 3 1 (Some (int k)) (Some (int k + 1)) audio)
             [0..<shape audio ! 1])"

text \<open>
  The conditioning tensor that a call without \<open>spect_queues\<close> computes for an audio
  input of \<open>T\<close> time steps: lines 324-338 read nothing of the audio but this size.
\<close>

definition conditioning :: "WN_2d \<Rightarrow> nat \<Rightarrow> tensor \<Rightarrow> nat list option \<Rightarrow> pyerr + tensor" where
  "conditioning self T spect speaker_id =
     WN_2d_spect self (zeros [1, 1, 1, T]) spect speaker_id None"

section \<open>The architecture of a WN\_2d instance\<close>

text \<open>
  What the constructor fixes and training does not change, as predicates for the proofs
  below. A two-dimensional convolution layer with its channel counts, its groups, its
  kernel, its dilation and its padding of the width (the height is never padded by a
  layer of WN\_2d):
\<close>

definition conv2d_is ::
  "convNd \<Rightarrow> nat \<Rightarrow> nat \<Rightarrow> nat \<Rightarrow> nat \<Rightarrow> nat \<Rightarrow> nat \<Rightarrow> nat \<Rightarrow> nat \<Rightarrow> bool" where
  "conv2d_is c cin cout g kh kw dh dw pw \<longleftrightarrow>
     shape (weight c) = [cout, cin div g, kh, kw] \<and> shape (bias c) = [cout]
     \<and> dilation c = [dh, dw] \<and> padding c = [0, pw] \<and> padding_mode c = Zeros \<and> groups c = g
     \<and> 0 < g \<and> cout mod g = 0 \<and> cin mod g = 0 \<and> 0 < dh \<and> 0 < dw \<and> 0 < kh \<and> 0 < kw"

text \<open>A 1x1 convolution from \<open>cin\<close> to \<open>cout\<close> channels.\<close>

definition pointwise :: "convNd \<Rightarrow> nat \<Rightarrow> nat \<Rightarrow> bool" where
  "pointwise c cin cout \<longleftrightarrow> conv2d_is c cin cout 1 1 1 1 1 0"

text \<open>
  An in-layer from \<open>C\<close> to \<open>2C\<close> channels: one convolution, or a depthwise convolution
  followed by a pointwise one. The width keeps its size under the padding.
\<close>

definition in_layer_is :: "convNd list \<Rightarrow> nat \<Rightarrow> nat \<Rightarrow> nat \<Rightarrow> nat \<Rightarrow> nat \<Rightarrow> bool" where
  "in_layer_is l C kh kw dh dw \<longleftrightarrow>
     kw mod 2 = 1 \<and>
     ((\<exists>c. l = [c] \<and> conv2d_is c C (2 * C) 1 kh kw dh dw (((kw - 1) * dw) div 2))
      \<or> (\<exists>c1 c2. l = [c1, c2] \<and> conv2d_is c1 C C C kh kw dh dw (((kw - 1) * dw) div 2)
                   \<and> pointwise c2 C (2 * C)))"

text \<open>
  An instance with \<open>C\<close> channels and \<open>L\<close> layers and the kernel \<open>kh\<close> by \<open>kw\<close>: the
  causal padding of a layer is \<open>(kh - 1)\<close> times the dilation of its in-layer along the
  height.
\<close>

definition WN_2d_arch :: "WN_2d \<Rightarrow> nat \<Rightarrow> nat \<Rightarrow> nat \<Rightarrow> nat \<Rightarrow> bool" where
  "WN_2d_arch m C L kh kw \<longleftrightarrow>
     n_channels m = C \<and> n_layers m = L \<and> kernel_size_h m = kh
     \<and> length (in_layers m) = L \<and> length (padding_h m) = L
     \<and> pointwise (start m) 1 C \<and> pointwise (end_conv m) C 2
     \<and> (\<forall>i<L. \<exists>dh dw. padding_h m ! i = (int kh - 1) * int dh
                      \<and> in_layer_is (in_layers m ! i) C kh kw dh dw)
     \<and> (if res_skip_layers m = [] then merge_res_skip m \<or> L = 0
         else length (res_skip_layers m) = L
              \<and> (\<forall>i<L. pointwise (res_skip_layers m ! i) C
                          (if i < L - 1 \<and> \<not> merge_res_skip m then 2 * C else C)))"

text \<open>
  The arguments with which the layers of the constructor can run at all: a kernel with
  at least one row, and dilations of at least 1.
\<close>

definition positive_sizes :: "wn_args \<Rightarrow> bool" where
  "positive_sizes a \<longleftrightarrow>
     0 < a_kernel_size_h a
     \<and> (\<forall>i < a_n_layers a.
           dilation_h (a_n_layers_dilations_h a) i \<noteq> Inr 0
           \<and> dilation_w (a_n_layers_dilations_w a) i \<noteq> Inr 0)"

section \<open>Relating a streaming step with the batch pass\<close>

text \<open>
  Two tensors \<open>x\<close> of shape \<open>[B, C, Hx + p, T]\<close> and \<open>y\<close> of shape \<open>[B, C, Hy + p, T]\<close>
  agree on \<open>p + 1\<close> rows, those from row \<open>h\<close> in \<open>x\<close> and from row \<open>h'\<close> in \<open>y\<close>. In the
  proofs \<open>x\<close> belongs to a streaming step (one row, \<open>h = 0\<close>) and \<open>y\<close> to the batch pass
  (\<open>h'\<close> is the number of the step). With \<open>p = 0\<close> one row of each agrees.
\<close>

definition rows_agree ::
  "nat \<Rightarrow> nat \<Rightarrow> nat \<Rightarrow> nat \<Rightarrow> tensor \<Rightarrow> nat \<Rightarrow> nat \<Rightarrow> tensor \<Rightarrow> nat \<Rightarrow> nat \<Rightarrow> bool" where
  "rows_agree B C T p x Hx h y Hy h' \<longleftrightarrow>
     shape x = [B, C, Hx + p, T] \<and> shape y = [B, C, Hy + p, T] \<and> h < Hx \<and> h' < Hy
     \<and> (\<forall>b<B. \<forall>c<C. \<forall>w<T. \<forall>r\<le>p. el x [b, c, h + r, w] = el y [b, c, h' + r, w])"

text \<open>
  The window \<open>q\<close> of \<open>p + 1\<close> rows holds the rows \<open>k .. k + p\<close> of the tensor \<open>y\<close> padded
  with \<open>p\<close> rows of zeros before its first row.
\<close>

definition window_of :: "nat \<Rightarrow> nat \<Rightarrow> nat \<Rightarrow> nat \<Rightarrow> nat \<Rightarrow> tensor \<Rightarrow> tensor \<Rightarrow> bool" where
  "window_of B C T p k q y \<longleftrightarrow>
     shape q = [B, C, p + 1, T]
     \<and> (\<forall>b<B. \<forall>c<C. \<forall>w<T. \<forall>r\<le>p.
           el q [b, c, r, w] = (if k + r < p then 0 else el y [b, c, k + r - p, w]))"

section \<open>A small instance\<close>

text \<open>
  An instance for the examples: two layers of two channels, a kernel of two rows and
  three columns, a res-skip layer in every layer and no conditioning layers; and values
  for its parameters.
\<close>

definition example_args :: wn_args where
  "example_args =
     \<lparr>a_n_in_channels = 1, a_cond_in_channels = 8, a_cond_layers = 0,
      a_cond_hidden_channels = 0, a_cond_kernel_size = 1, a_cond_padding_mode = Zeros,
      a_seperable_conv = False, a_merge_res_skip = False, a_upsample_mode = Nearest,
      a_n_layers = 2, a_n_channels = 2, a_kernel_size = None, a_kernel_size_w = Some 3,
      a_kernel_size_h = 2, a_speaker_embed_dim = 0, a_rezero = False,
      a_cond_activation_func = ''none'', a_negative_slope = None,
      a_n_layers_dilations_w = DNone, a_n_layers_dilations_h = DInt 1,
      a_res_skip = True, a_cond_out_activation_func = False, a_upsample_first = False\<rparr>"

definition example_values :: init_values where
  "example_values name i ix = 1"

definition example_WN_2d :: WN_2d where
  "example_WN_2d =
     set_parameters example_values
       (case WN_2d_init example_args example_values of Inr m \<Rightarrow> m | Inl e \<Rightarrow> undefined)"

text \<open>
  The same instance with one layer only and \<open>upsample_first\<close> set: its conditioning
  input has four channels and is not upsampled by \<open>forward\<close>.
\<close>

definition upsampled_args :: wn_args where
  "upsampled_args =
     example_args\<lparr>a_cond_in_channels := 4, a_n_layers := 1, a_upsample_first := True\<rparr>"

definition upsampled_WN_2d :: WN_2d where
  "upsampled_WN_2d =
     set_parameters example_values
       (case WN_2d_init upsampled_args example_values of Inr m \<Rightarrow> m | Inl e \<Rightarrow> undefined)"

section \<open>The states of the batch pass\<close>

text \<open>
  The state of the loop of \<open>forward\<close> after its first \<open>j\<close> rounds, started in \<open>st\<close>
  (when these rounds raise nothing).
\<close>

definition state_after :: "WN_2d \<Rightarrow> tensor \<Rightarrow> loop_state \<Rightarrow> nat \<Rightarrow> loop_state" where
  "state_after m spect st j =
     (case for_range (WN_2d_layer m spect) [0..<j] st of Inr s \<Rightarrow> s | Inl e \<Rightarrow> st)"

text \<open>
  The queues of a streaming session before its step \<open>k\<close>: all empty before the first
  step; afterwards the queue of layer \<open>i\<close> is the window of step \<open>k - 1\<close> on the input
  that layer \<open>i\<close> has in the batch pass started in \<open>st\<close>.
\<close>

definition queues_before ::
  "WN_2d \<Rightarrow> nat \<Rightarrow> nat \<Rightarrow> nat \<Rightarrow> tensor \<Rightarrow> loop_state \<Rightarrow> nat \<Rightarrow> tensor option list \<Rightarrow> bool" where
  "queues_before m B C T spect st k qs \<longleftrightarrow>
     length qs = n_layers m
     \<and> (\<forall>i < n_layers m.
           if k = 0 then qs ! i = None
           else (\<exists>old. qs ! i = Some old
                   \<and> window_of B C T (nat (padding_h m ! i)) (k - 1) old
                        (l_audio (state_after m spect st i))))"

section \<open>Properties of the tensor operations\<close>

lemma ebind_Inl [simp]: "ebind (Inl e) f = Inl e"
  by (simp add: ebind_def)

lemma ebind_Inr [simp]: "ebind (Inr x) f = f x"
  by (simp add: ebind_def)

lemma ebind_eq_Inr:
  "ebind r f = Inr y \<longleftrightarrow> (\<exists>x. r = Inr x \<and> f x = Inr y)"
  by (cases r) simp_all

lemma set_indices: "set (indices s) = {ix. list_all2 (<) ix s}"
proof (induction s)
  case Nil
  then show ?case by auto
next
  case (Cons n ns)
  show ?case
  proof (rule set_eqI)
    fix ix
    show "ix \<in> set (indices (n # ns)) \<longleftrightarrow> ix \<in> {ix. list_all2 (<) ix (n # ns)}"
      using Cons.IH by (cases ix) (auto simp: list_all2_Cons2)
  qed
qed

lemma tensor_eq_iff:
  "tensor_eq a b \<longleftrightarrow> shape a = shape b \<and> (\<forall>ix. list_all2 (<) ix (shape a) \<longrightarrow> el a ix = el b ix)"
  by (auto simp: tensor_eq_def set_indices)

lemma shape_zeros [simp]: "shape (zeros s) = s"
  by (simp add: zeros_def)

lemma el_zeros [simp]: "el (zeros s) ix = 0"
  by (simp add: zeros_def)

lemma shape_tmap [simp]: "shape (tmap f t) = shape t"
  by (simp add: tmap_def)

lemma el_tmap [simp]: "el (tmap f t) ix = f (el t ix)"
  by (simp add: tmap_def)

lemma broadcast_rev_same [simp]: "broadcast_rev s s = Some s"
  by (induction s) auto

lemma broadcast_shapes_same [simp]: "broadcast_shapes s s = Some s"
  by (simp add: broadcast_shapes_def)

lemma sigmoid_pos: "0 < sigmoid x"
  by (simp add: sigmoid_def add_pos_pos)

lemma sigmoid_lt_1: "sigmoid x < 1"
  by (simp add: sigmoid_def add_pos_pos)

lemma abs_tanh_sigmoid_le_1: "\<bar>tanh x * sigmoid y\<bar> \<le> 1"
proof -
  have "\<bar>tanh x\<bar> \<le> 1"
    using tanh_real_lt_1 [of x] tanh_real_gt_neg1 [of x] by (simp add: abs_le_iff)
  moreover have "\<bar>sigmoid y\<bar> \<le> 1"
    using sigmoid_pos [of y] sigmoid_lt_1 [of y] by simp
  ultimately have "\<bar>tanh x\<bar> * \<bar>sigmoid y\<bar> \<le> 1 * 1"
    by (intro mult_mono) simp_all
  then show ?thesis by (simp add: abs_mult)
qed

lemma bindex_in_range: "list_all2 (<) ix s \<Longrightarrow> bindex s ix = ix"
proof -
  assume h: "list_all2 (<) ix s"
  then have len: "length ix = length s" by (rule list_all2_lengthD)
  have "map2 (\<lambda>d i. if d = 1 then 0 else i) s ix = ix"
    using h
  proof (induction ix s rule: list_all2_induct)
    case Nil
    then show ?case by simp
  next
    case (Cons i ix d s)
    then show ?case by auto
  qed
  then show ?thesis by (simp add: bindex_def len)
qed

section \<open>Properties of the convolution layers\<close>

lemma conv2d_ok:
  assumes "conv2d_is c cin cout g kh kw dh dw pw"
    and "shape x = [B, cin, H, W]"
    and "dh * (kh - 1) < H" and "dw * (kw - 1) < W + 2 * pw"
  shows "conv2d c x = Inr \<lparr>shape = [B, cout, H - dh * (kh - 1), W + 2 * pw - dw * (kw - 1)],
                           el = conv2d_el c x\<rparr>"
  using assms
  by (auto simp: conv2d_def conv2d_is_def conv_channels_ok_def pad_ok_def Let_def)

lemma in_channel_less:
  assumes "conv2d_is c cin cout g kh kw dh dw pw" and "o' < cout" and "k < cin div g"
  shows "in_channel c o' k < cin"
proof -
  from assms(1) have g: "0 < g" and cout: "cout mod g = 0" and cin: "cin mod g = 0"
    and w: "shape (weight c) = [cout, cin div g, kh, kw]" and gr: "groups c = g"
    by (simp_all add: conv2d_is_def)
  define q where "q = cout div g"
  have "g dvd cout" using cout by (simp add: mod_eq_0_iff_dvd)
  then have coutq: "cout = q * g" by (simp add: q_def)
  have "0 < q" using assms(2) coutq by (cases q) simp_all
  have "o' div q < g" using assms(2) coutq \<open>0 < q\<close>
    by (simp add: less_mult_imp_div_less mult.commute)
  then have "o' div q + 1 \<le> g" by simp
  then have "(o' div q + 1) * (cin div g) \<le> g * (cin div g)" by (rule mult_le_mono1)
  moreover have "g * (cin div g) = cin" using cin by (simp add: mod_eq_0_iff_dvd)
  moreover have "(o' div q) * (cin div g) + k < (o' div q + 1) * (cin div g)"
    using assms(3) by simp
  ultimately show ?thesis
    by (simp add: in_channel_def w gr q_def)
qed

text \<open>Locality of a convolution without height padding.\<close>

lemma conv2d_el_cong:
  assumes c: "conv2d_is c cin cout g kh kw dh dw pw"
    and x: "shape x = [B, cin, Hx, W]" and y: "shape y = [B, cin, Hy, W]"
    and hx: "h + dh * (kh - 1) < Hx" and hy: "h' + dh * (kh - 1) < Hy"
    and oc: "o' < cout" and b: "b < B"
    and eq: "\<And>c' i w'. c' < cin \<Longrightarrow> i < kh \<Longrightarrow> w' < W \<Longrightarrow>
               el x [b, c', h + i * dh, w'] = el y [b, c', h' + i * dh, w']"
  shows "conv2d_el c x [b, o', h, w] = conv2d_el c y [b, o', h', w]"
proof -
  from c have sh: "shape (weight c) = [cout, cin div g, kh, kw]"
    and pd: "padding c = [0, pw]" and pm: "padding_mode c = Zeros" and dl: "dilation c = [dh, dw]"
    by (simp_all add: conv2d_is_def)
  have rows: "i * dh \<le> dh * (kh - 1)" if "i < kh" for i
  proof -
    from that have "i \<le> kh - 1" by simp
    then have "i * dh \<le> (kh - 1) * dh" by (rule mult_le_mono1)
    then show ?thesis by (simp only: mult.commute)
  qed
  have tm: "(case pad_src Zeros 0 Hx (h + i * dh) of None \<Rightarrow> 0
               | Some hh \<Rightarrow> (case pad_src Zeros pw W (w + j * dw) of None \<Rightarrow> 0
                   | Some ww \<Rightarrow> el x [b, in_channel c o' k, hh, ww]))
            = (case pad_src Zeros 0 Hy (h' + i * dh) of None \<Rightarrow> 0
               | Some hh \<Rightarrow> (case pad_src Zeros pw W (w + j * dw) of None \<Rightarrow> 0
                   | Some ww \<Rightarrow> el y [b, in_channel c o' k, hh, ww]))"
    if k: "k < cin div g" and i: "i < kh" for k i j
  proof -
    have 1: "h + i * dh < Hx" using rows [OF i] hx by linarith
    have 2: "h' + i * dh < Hy" using rows [OF i] hy by linarith
    have 3: "in_channel c o' k < cin" by (rule in_channel_less [OF c oc k])
    show ?thesis
      using 1 2 eq [OF 3 i] by (auto simp: pad_src_def split: option.splits)
  qed
  have ex: "conv2d_el c t [b, o', r, w] =
      el (bias c) [o'] +
      (\<Sum>k < cin div g. \<Sum>i < kh. \<Sum>j < kw.
         el (weight c) [o', k, i, j] *
         (case pad_src Zeros 0 Ht (r + i * dh) of None \<Rightarrow> 0
          | Some hh \<Rightarrow> (case pad_src Zeros pw W (w + j * dw) of None \<Rightarrow> 0
              | Some ww \<Rightarrow> el t [b, in_channel c o' k, hh, ww])))"
    if "shape t = [B, cin, Ht, W]" for t Ht r
    by (simp add: conv2d_el_def sh pd pm dl that cong: option.case_cong)
  show ?thesis
    unfolding ex [OF x] ex [OF y]
    by (intro arg_cong2 [where f = "(+)"] arg_cong2 [where f = "(*)"] sum.cong refl tm) simp_all
qed

section \<open>The tensor operations on tensors of four dimensions\<close>

lemma upd4 [simp]:
  "[a, b, c, d][2 := v] = [a, b, v, d]"
  "[a, b, c, d][3 := v] = [a, b, c, v]"
  "[a, b, c, d][Suc 0 := v] = [a, v, c, d]"
  by (simp_all add: numeral_2_eq_2 numeral_3_eq_3)

lemma pad_top_4d:
  assumes "shape x = [B, C, H, T]"
  shows "\<exists>r. pad_top (int p) x = Inr r \<and> shape r = [B, C, H + p, T] \<and>
           (\<forall>b c h w. el r [b, c, h, w] = (if h < p then 0 else el x [b, c, h - p, w]))"
  using assms by (simp add: pad_top_def Let_def)

lemma tcat2_4d:
  assumes "shape a = [B, C, Ha, T]" and "shape b = [B, C, Hb, T]"
  shows "\<exists>r. tcat 2 a b = Inr r \<and> shape r = [B, C, Ha + Hb, T] \<and>
           (\<forall>b' c h w. el r [b', c, h, w] =
               (if h < Ha then el a [b', c, h, w] else el b [b', c, h - Ha, w]))"
  using assms by (simp add: tcat_def)

lemma tslice_last_rows:
  assumes "shape a = [B, C, H, T]"
  shows "\<exists>r. tslice 3 2 (Some (- int p - 1)) None a = Inr r
           \<and> shape r = [B, C, H - (H - (p + 1)), T]
           \<and> (\<forall>b c h w. el r [b, c, h, w] = el a [b, c, h + (H - (p + 1)), w])"
proof -
  have "slice_bound (- int p - 1) H = H - (p + 1)"
    by (simp add: slice_bound_def)
  then show ?thesis
    using assms by (simp add: tslice_def slice_range_def)
qed

lemma tslice_channels:
  assumes "shape a = [B, C, H, T]" and "lo \<le> hi" and "hi \<le> C"
  shows "\<exists>r. tslice 2 1 (Some (int lo)) (Some (int hi)) a = Inr r
           \<and> shape r = [B, hi - lo, H, T]
           \<and> (\<forall>b c h w. el r [b, c, h, w] = el a [b, c + lo, h, w])"
  using assms by (simp add: tslice_def slice_range_def slice_bound_def min_def)

lemma tslice_channels_to:
  assumes "shape a = [B, C, H, T]" and "hi \<le> C"
  shows "\<exists>r. tslice 3 1 None (Some (int hi)) a = Inr r \<and> shape r = [B, hi, H, T]
           \<and> (\<forall>b c h w. el r [b, c, h, w] = el a [b, c, h, w])"
  using assms by (simp add: tslice_def slice_range_def slice_bound_def min_def)

lemma tslice_channels_from:
  assumes "shape a = [B, C, H, T]" and "lo \<le> C"
  shows "\<exists>r. tslice 3 1 (Some (int lo)) None a = Inr r \<and> shape r = [B, C - lo, H, T]
           \<and> (\<forall>b c h w. el r [b, c, h, w] = el a [b, c + lo, h, w])"
  using assms by (simp add: tslice_def slice_range_def slice_bound_def min_def)

lemma bindex4:
  assumes "b < B" "c < C" "h < H" "w < T"
  shows "bindex [B, C, H, T] [b, c, h, w] = [b, c, h, w]"
  using assms by (intro bindex_in_range) simp

lemma bindex4_row:
  assumes "b < B" "c < C" "w < T"
  shows "bindex [B, C, Suc 0, T] [b, c, h, w] = [b, c, 0, w]"
  using assms by (auto simp: bindex_def)

lemma tiadd_4d:
  assumes "shape a = [B, C, H, T]" and "shape b = [B, C, H, T]"
  shows "\<exists>r. tiadd a b = Inr r \<and> shape r = [B, C, H, T] \<and>
     (\<forall>b' c h w. b' < B \<and> c < C \<and> h < H \<and> w < T \<longrightarrow>
        el r [b', c, h, w] = el a [b', c, h, w] + el b [b', c, h, w])"
  using assms by (simp add: tiadd_def tadd_def tbinop_def bindex4)

lemma fused_4d:
  assumes a: "shape a = [B, 2 * C, H, T]" and s: "shape s = [B, 2 * C, 1, T]"
  shows "\<exists>r. fused_add_tanh_sigmoid_multiply a s (int C) = Inr r \<and> shape r = [B, C, H, T] \<and>
     (\<forall>b c h w. b < B \<and> c < C \<and> h < H \<and> w < T \<longrightarrow>
        el r [b, c, h, w] = tanh (el a [b, c, h, w] + el s [b, c, 0, w])
                          * sigmoid (el a [b, C + c, h, w] + el s [b, C + c, 0, w]))"
proof -
  have bs: "broadcast_shapes [B, 2 * C, H, T] [B, 2 * C, Suc 0, T] = Some [B, 2 * C, H, T]"
    by (simp add: broadcast_shapes_def)
  show ?thesis
    unfolding fused_add_tanh_sigmoid_multiply_def tadd_def tmul_def tbinop_def
    by (simp add: a s bs tslice_def slice_range_def slice_bound_def bindex4 bindex4_row
        add.commute)
qed

lemma transpose10_4d:
  assumes "shape a = [A, B, H, T]"
  shows "\<exists>r. transpose10 a = Inr r \<and> shape r = [B, A, H, T] \<and>
           (\<forall>i b h w. el r [i, b, h, w] = el a [b, i, h, w])"
  using assms by (simp add: transpose10_def)

lemma unsqueeze1_3d:
  assumes "shape a = [B, n, T]"
  shows "\<exists>r. unsqueeze 1 a = Inr r \<and> shape r = [B, 1, n, T] \<and>
           (\<forall>b c h w. el r [b, c, h, w] = el a [b, h, w])"
  using assms by (simp add: unsqueeze_def)

section \<open>What the constructor of WN\_2d builds\<close>

lemma collect_Inr:
  "collect f js = Inr xs \<Longrightarrow> length xs = length js \<and> (\<forall>j<length js. f (js ! j) = Inr (xs ! j))"
proof (induction js arbitrary: xs)
  case Nil
  then show ?case by simp
next
  case (Cons i js)
  from Cons.prems obtain x ys where x: "f i = Inr x" and ys: "collect f js = Inr ys"
    and xs: "xs = x # ys"
    by (auto simp: ebind_eq_Inr)
  from Cons.IH [OF ys] show ?case
    by (auto simp: xs x nth_Cons split: nat.splits)
qed

lemma collect_upt:
  assumes "collect f [0..<n] = Inr xs"
  shows "length xs = n" and "\<And>i. i < n \<Longrightarrow> f i = Inr (xs ! i)"
  using collect_Inr [OF assms] by auto

lemma conv2d_is_new_conv:
  assumes "0 < g" "cout mod g = 0" "cin mod g = 0" "0 < dh" "0 < dw" "0 < kh" "0 < kw"
  shows "conv2d_is (new_conv \<theta> name i cin cout [kh, kw] [dh, dw] [0, pw] Zeros g)
           cin cout g kh kw dh dw pw"
  using assms by (simp add: conv2d_is_def new_conv_def)

lemma conv2d_is_set_conv [simp]:
  "conv2d_is (set_conv \<theta> name i c) cin cout g kh kw dh dw pw
     = conv2d_is c cin cout g kh kw dh dw pw"
  by (simp add: conv2d_is_def set_conv_def)

lemma conv2d_is_zero_conv [simp]:
  "conv2d_is (zero_conv c) cin cout g kh kw dh dw pw = conv2d_is c cin cout g kh kw dh dw pw"
  by (simp add: conv2d_is_def zero_conv_def)

lemma WN_2d_in_layer_is:
  assumes r: "WN_2d_in_layer a \<theta> kw i = Inr (p, l)"
    and kw: "kw mod 2 = 1" and kh: "0 < a_kernel_size_h a"
    and dh: "dilation_h (a_n_layers_dilations_h a) i \<noteq> Inr 0"
    and dw: "dilation_w (a_n_layers_dilations_w a) i \<noteq> Inr 0"
  shows "\<exists>dh dw. dilation_h (a_n_layers_dilations_h a) i = Inr dh
           \<and> p = (int (a_kernel_size_h a) - 1) * int dh
           \<and> in_layer_is l (a_n_channels a) (a_kernel_size_h a) kw dh dw"
proof -
  from r obtain dh' dw' where dh': "dilation_h (a_n_layers_dilations_h a) i = Inr dh'"
    and dw': "dilation_w (a_n_layers_dilations_w a) i = Inr dw'"
    by (auto simp: WN_2d_in_layer_def ebind_eq_Inr)
  from dh dh' have dhp: "0 < dh'" by simp
  from dw dw' have dwp: "0 < dw'" by simp
  from kw have kwp: "0 < kw" by (cases kw) simp_all
  show ?thesis
  proof (cases "\<not> a_seperable_conv a \<or> (kw = 1 \<and> a_kernel_size_h a = 1)")
    case True
    with r dh' dw' have "p = (int (a_kernel_size_h a) - 1) * int dh'"
      and "l = [new_conv \<theta> ''in_layers'' i (a_n_channels a) (2 * a_n_channels a)
                    [a_kernel_size_h a, kw] [dh', dw'] [0, ((kw - 1) * dw') div 2] Zeros 1]"
      by (auto simp: WN_2d_in_layer_def Let_def)
    then show ?thesis
      using dh' kw conv2d_is_new_conv [of 1 "2 * a_n_channels a" "a_n_channels a" dh' dw'
          "a_kernel_size_h a" kw \<theta> "''in_layers''" i "((kw - 1) * dw') div 2"] dhp dwp kh kwp
      by (auto simp: in_layer_is_def)
  next
    case False
    with r dh' dw' have C: "a_n_channels a \<noteq> 0"
      and "p = (int (a_kernel_size_h a) - 1) * int dh'"
      and "l = [new_conv \<theta> ''in_layers.depthwise'' i (a_n_channels a) (a_n_channels a)
                    [a_kernel_size_h a, kw] [dh', dw'] [0, ((kw - 1) * dw') div 2] Zeros
                    (a_n_channels a),
                new_conv \<theta> ''in_layers.pointwise'' i (a_n_channels a) (2 * a_n_channels a)
                    [1, 1] [1, 1] [0, 0] Zeros 1]"
      by (auto simp: WN_2d_in_layer_def Let_def split: if_splits)
    then show ?thesis
      using dh' kw
        conv2d_is_new_conv [of "a_n_channels a" "a_n_channels a" "a_n_channels a" dh' dw'
          "a_kernel_size_h a" kw \<theta> "''in_layers.depthwise''" i "((kw - 1) * dw') div 2"]
        conv2d_is_new_conv [of 1 "2 * a_n_channels a" "a_n_channels a" 1 1 1 1
          \<theta> "''in_layers.pointwise''" i 0] dhp dwp kh kwp
      by (auto simp: in_layer_is_def pointwise_def)
  qed
qed

lemma in_layer_is_set:
  assumes "in_layer_is l C kh kw dh dw"
  shows "in_layer_is (map (\<lambda>(j, c). set_conv \<theta> name (f j) c) (zip [0..<length l] l)) C kh kw dh dw"
proof -
  have 2: "[0..<2] = [0, Suc 0]" by (simp add: numeral_2_eq_2)
  from assms show ?thesis
    by (auto simp: in_layer_is_def pointwise_def 2)
qed

lemma set_convs_nth:
  "i < length cs \<Longrightarrow> set_convs \<theta> name cs ! i = set_conv \<theta> name i (cs ! i)"
  by (simp add: set_convs_def)

lemma length_set_convs [simp]: "length (set_convs \<theta> name cs) = length cs"
  by (simp add: set_convs_def)

lemma concat_singletons: "concat (map (\<lambda>i. [f i]) xs) = map f xs"
  by (induction xs) simp_all

lemma concat_empties: "concat (map (\<lambda>i. []) xs) = []"
  by (induction xs) simp_all

lemma res_skip_layers_init:
  "concat (map (new_res_skip a \<theta> one) [0..<n]) =
     (if a_res_skip a
      then map (\<lambda>i. new_conv \<theta> ''res_skip_layers'' i (a_n_channels a)
                  (if i < a_n_layers a - 1 \<and> \<not> a_merge_res_skip a then 2 * a_n_channels a
                   else a_n_channels a) one (map (\<lambda>_. 1) one) (map (\<lambda>_. 0) one) Zeros 1) [0..<n]
      else [])"
proof (cases "a_res_skip a")
  case True
  then have "new_res_skip a \<theta> one =
      (\<lambda>i. [new_conv \<theta> ''res_skip_layers'' i (a_n_channels a)
                  (if i < a_n_layers a - 1 \<and> \<not> a_merge_res_skip a then 2 * a_n_channels a
                   else a_n_channels a) one (map (\<lambda>_. 1) one) (map (\<lambda>_. 0) one) Zeros 1])"
    by (intro ext) (simp add: new_res_skip_def Let_def)
  then show ?thesis using True by (simp only: concat_singletons if_True)
next
  case False
  then have "new_res_skip a \<theta> one = (\<lambda>i. [])"
    by (intro ext) (simp add: new_res_skip_def Let_def)
  then show ?thesis using False by (simp only: concat_empties if_False)
qed

lemma WN_2d_init_fields:
  assumes "WN_2d_init a \<theta>0 = Inr m0"
  shows "\<exists>kw ins.
     a_kernel_size_w a = Some kw \<and> kw mod 2 = 1 \<and> a_n_channels a mod 2 = 0
     \<and> (a_res_skip a \<or> a_merge_res_skip a)
     \<and> collect (WN_2d_in_layer a \<theta>0 kw) [0..<a_n_layers a] = Inr ins
     \<and> n_layers m0 = a_n_layers a \<and> n_channels m0 = a_n_channels a
     \<and> merge_res_skip m0 = a_merge_res_skip a
     \<and> kernel_size_h m0 = a_kernel_size_h a
     \<and> start m0 = new_conv \<theta>0 ''start'' 0 1 (a_n_channels a) [1, 1] [1, 1] [0, 0] Zeros 1
     \<and> end_conv m0 = zero_conv (new_conv \<theta>0 ''end'' 0 (a_n_channels a) 2 [1, 1] [1, 1] [0, 0] Zeros 1)
     \<and> in_layers m0 = map snd ins \<and> padding_h m0 = map fst ins
     \<and> res_skip_layers m0 = concat (map (new_res_skip a \<theta>0 [1, 1]) [0..<a_n_layers a])
     \<and> h_dilate m0 = (case a_n_layers_dilations_h a of
                        DNone \<Rightarrow> None
                      | DInt d \<Rightarrow> Some (replicate (a_n_layers a) d)
                      | DList l \<Rightarrow> Some l)"
  using assms
  by (auto simp: WN_2d_init_def ebind_eq_Inr split: option.splits if_splits)

lemma set_parameters_fields [simp]:
  "n_layers (set_parameters \<theta> m) = n_layers m"
  "n_channels (set_parameters \<theta> m) = n_channels m"
  "merge_res_skip (set_parameters \<theta> m) = merge_res_skip m"
  "upsample_first (set_parameters \<theta> m) = upsample_first m"
  "speaker_embed_dim (set_parameters \<theta> m) = speaker_embed_dim m"
  "start (set_parameters \<theta> m) = set_conv \<theta> ''start'' 0 (start m)"
  "end_conv (set_parameters \<theta> m) = set_conv \<theta> ''end'' 0 (end_conv m)"
  "res_skip_layers (set_parameters \<theta> m) = set_convs \<theta> ''res_skip_layers'' (res_skip_layers m)"
  "in_layers (set_parameters \<theta> m) =
     map (\<lambda>(i, l). map (\<lambda>(j, c). set_conv \<theta> ''in_layers'' (2 * i + j) c) (zip [0..<length l] l))
         (zip [0..<length (in_layers m)] (in_layers m))"
  by (simp_all add: set_parameters_def)

lemma set_parameters_more [simp]:
  "kernel_size_h (set_parameters \<theta> m) = kernel_size_h m"
  "padding_h (set_parameters \<theta> m) = padding_h m"
  "h_dilate (set_parameters \<theta> m) = h_dilate m"
  by (simp_all add: set_parameters_def)

lemma WN_2d_init_arch:
  assumes init: "WN_2d_init a \<theta>0 = Inr m0" and pos: "positive_sizes a"
  shows "\<exists>kw. WN_2d_arch (set_parameters \<theta> m0) (a_n_channels a) (a_n_layers a)
                 (a_kernel_size_h a) kw"
proof -
  let ?C = "a_n_channels a" and ?L = "a_n_layers a" and ?kh = "a_kernel_size_h a"
  from WN_2d_init_fields [OF init] obtain kw ins where
    kw: "kw mod 2 = 1" and rs: "a_res_skip a \<or> a_merge_res_skip a"
    and ins: "collect (WN_2d_in_layer a \<theta>0 kw) [0..<?L] = Inr ins"
    and f: "n_layers m0 = ?L" "n_channels m0 = ?C" "merge_res_skip m0 = a_merge_res_skip a"
      "kernel_size_h m0 = ?kh"
      "start m0 = new_conv \<theta>0 ''start'' 0 1 ?C [1, 1] [1, 1] [0, 0] Zeros 1"
      "end_conv m0 = zero_conv (new_conv \<theta>0 ''end'' 0 ?C 2 [1, 1] [1, 1] [0, 0] Zeros 1)"
      "in_layers m0 = map snd ins" "padding_h m0 = map fst ins"
      "res_skip_layers m0 = concat (map (new_res_skip a \<theta>0 [1, 1]) [0..<?L])"
    by (elim exE conjE) (rule that; assumption)
  from pos have kh: "0 < ?kh" by (simp add: positive_sizes_def)
  have len: "length ins = ?L" by (rule collect_upt(1) [OF ins])
  have layer: "\<exists>dh dw. padding_h m0 ! i = (int ?kh - 1) * int dh
                 \<and> in_layer_is (in_layers m0 ! i) ?C ?kh kw dh dw" if i: "i < ?L" for i
  proof -
    have "WN_2d_in_layer a \<theta>0 kw i = Inr (fst (ins ! i), snd (ins ! i))"
      using collect_upt(2) [OF ins i] by simp
    from WN_2d_in_layer_is [OF this kw kh] pos i
    show ?thesis by (auto simp: f len positive_sizes_def)
  qed
  have st: "pointwise (start m0) 1 ?C"
    unfolding f pointwise_def by (rule conv2d_is_new_conv) simp_all
  have en: "pointwise (end_conv m0) ?C 2"
    unfolding f pointwise_def conv2d_is_zero_conv by (rule conv2d_is_new_conv) simp_all
  have rsk: "if res_skip_layers m0 = [] then merge_res_skip m0 \<or> ?L = 0
         else length (res_skip_layers m0) = ?L
              \<and> (\<forall>i<?L. pointwise (res_skip_layers m0 ! i) ?C
                          (if i < ?L - 1 \<and> \<not> merge_res_skip m0 then 2 * ?C else ?C))"
  proof (cases "a_res_skip a")
    case True
    show ?thesis
      unfolding f res_skip_layers_init using True
      by (auto simp: pointwise_def intro!: conv2d_is_new_conv)
  next
    case False
    with rs show ?thesis
      unfolding f res_skip_layers_init by simp
  qed
  have "WN_2d_arch (set_parameters \<theta> m0) ?C ?L ?kh kw"
    unfolding WN_2d_arch_def
  proof (intro conjI)
    show "\<forall>i<?L. \<exists>dh dw. padding_h (set_parameters \<theta> m0) ! i = (int ?kh - 1) * int dh
                 \<and> in_layer_is (in_layers (set_parameters \<theta> m0) ! i) ?C ?kh kw dh dw"
    proof (intro allI impI)
      fix i assume i: "i < ?L"
      from layer [OF i] obtain dh dw where p: "padding_h m0 ! i = (int ?kh - 1) * int dh"
        and l: "in_layer_is (in_layers m0 ! i) ?C ?kh kw dh dw" by blast
      have "in_layers (set_parameters \<theta> m0) ! i =
          map (\<lambda>(j, c). set_conv \<theta> ''in_layers'' (2 * i + j) c)
            (zip [0..<length (in_layers m0 ! i)] (in_layers m0 ! i))"
        using i by (simp add: f len)
      with in_layer_is_set [OF l, of \<theta> "''in_layers''" "\<lambda>j. 2 * i + j"] p
      show "\<exists>dh dw. padding_h (set_parameters \<theta> m0) ! i = (int ?kh - 1) * int dh
                 \<and> in_layer_is (in_layers (set_parameters \<theta> m0) ! i) ?C ?kh kw dh dw"
        by auto
    qed
    show "if res_skip_layers (set_parameters \<theta> m0) = [] then merge_res_skip (set_parameters \<theta> m0) \<or> ?L = 0
         else length (res_skip_layers (set_parameters \<theta> m0)) = ?L
              \<and> (\<forall>i<?L. pointwise (res_skip_layers (set_parameters \<theta> m0) ! i) ?C
                          (if i < ?L - 1 \<and> \<not> merge_res_skip (set_parameters \<theta> m0) then 2 * ?C else ?C))"
      using rsk by (auto simp: set_convs_nth pointwise_def set_convs_def split: if_splits)
    show "n_channels (set_parameters \<theta> m0) = ?C" by (simp add: f)
    show "n_layers (set_parameters \<theta> m0) = ?L" by (simp add: f)
    show "kernel_size_h (set_parameters \<theta> m0) = ?kh" by (simp add: f)
    show "length (in_layers (set_parameters \<theta> m0)) = ?L" by (simp add: f(7) len)
    show "length (padding_h (set_parameters \<theta> m0)) = ?L" by (simp add: f(8) len)
    show "pointwise (start (set_parameters \<theta> m0)) 1 ?C"
      using st by (simp add: pointwise_def)
    show "pointwise (end_conv (set_parameters \<theta> m0)) ?C 2"
      using en by (simp add: pointwise_def)
  qed
  then show ?thesis ..
qed

section \<open>The window of the causal convolution\<close>

lemma list_get_ok [simp]: "i < length xs \<Longrightarrow> list_get xs i = Inr (xs ! i)"
  by (simp add: list_get_def)

lemma list_get_err [simp]: "\<not> i < length xs \<Longrightarrow> list_get xs i = Inl IndexError"
  by (simp add: list_get_def)

lemma new_zeros_4d:
  "new_zeros [int B, int C, int p, int T] = Inr (zeros [B, C, p, T])"
  by (simp add: new_zeros_def)

text \<open>The window of a layer whose queue is still empty.\<close>

lemma WN_2d_cpad_first:
  assumes q: "l_audio_queues st = Some qs" and i: "i < length qs" and e: "qs ! i = None"
    and ip: "i < length (padding_h m)" and p: "padding_h m ! i = int p"
    and a: "shape (l_audio st) = [B, C, h, T]" and h: "0 < h"
  shows "\<exists>w. WN_2d_cpad m i st = Inr (w, st\<lparr>l_audio_queues := Some (qs[i := Some w])\<rparr>)
           \<and> shape w = [B, C, p + 1, T]
           \<and> (\<forall>b c r t. el w [b, c, r, t] =
                 (if r + (h - 1) < p then 0 else el (l_audio st) [b, c, r + (h - 1) - p, t]))"
proof -
  from tcat2_4d [of "zeros [B, C, p, T]" B C p T "l_audio st" h] a
  obtain j where j: "tcat 2 (zeros [B, C, p, T]) (l_audio st) = Inr j"
    and js: "shape j = [B, C, p + h, T]"
    and je: "\<And>b c r t. el j [b, c, r, t] =
               (if r < p then el (zeros [B, C, p, T]) [b, c, r, t] else el (l_audio st) [b, c, r - p, t])"
    by auto
  from tslice_last_rows [OF js, of p]
  obtain w where w: "tslice 3 2 (Some (- int p - 1)) None j = Inr w"
    and ws: "shape w = [B, C, p + h - (p + h - (p + 1)), T]"
    and we: "\<And>b c r t. el w [b, c, r, t] = el j [b, c, r + (p + h - (p + 1)), t]"
    by auto
  have hh: "p + h - (p + h - (p + 1)) = p + 1" "p + h - (p + 1) = h - 1"
    using h by simp_all
  have ws': "shape w = [B, C, p + 1, T]" using h by (simp add: ws)
  have "WN_2d_cpad m i st = Inr (w, st\<lparr>l_audio_queues := Some (qs[i := Some w])\<rparr>)"
    unfolding WN_2d_cpad_def
    by (simp add: q i e ip p a new_zeros_4d j w ws')
  moreover note ws'
  moreover have "el w [b, c, r, t] =
                 (if r + (h - 1) < p then 0 else el (l_audio st) [b, c, r + (h - 1) - p, t])"
    for b c r t
    by (simp add: we je hh)
  ultimately show ?thesis by blast
qed

text \<open>The window of a layer whose queue holds the window of the step before.\<close>

lemma WN_2d_cpad_next:
  assumes q: "l_audio_queues st = Some qs" and i: "i < length qs" and e: "qs ! i = Some old"
    and o: "shape old = [B, C, n, T]"
    and ip: "i < length (padding_h m)" and p: "padding_h m ! i = int p"
    and a: "shape (l_audio st) = [B, C, h, T]" and h: "p + 1 \<le> n + h"
  shows "\<exists>w. WN_2d_cpad m i st = Inr (w, st\<lparr>l_audio_queues := Some (qs[i := Some w])\<rparr>)
           \<and> shape w = [B, C, p + 1, T]
           \<and> (\<forall>b c r t. el w [b, c, r, t] =
                 (if r + (n + h - (p + 1)) < n then el old [b, c, r + (n + h - (p + 1)), t]
                  else el (l_audio st) [b, c, r + (n + h - (p + 1)) - n, t]))"
proof -
  from tcat2_4d [OF o a]
  obtain j where j: "tcat 2 old (l_audio st) = Inr j"
    and js: "shape j = [B, C, n + h, T]"
    and je: "\<And>b c r t. el j [b, c, r, t] =
               (if r < n then el old [b, c, r, t] else el (l_audio st) [b, c, r - n, t])"
    by auto
  from tslice_last_rows [OF js, of p]
  obtain w where w: "tslice 3 2 (Some (- int p - 1)) None j = Inr w"
    and ws: "shape w = [B, C, n + h - (n + h - (p + 1)), T]"
    and we: "\<And>b c r t. el w [b, c, r, t] = el j [b, c, r + (n + h - (p + 1)), t]"
    by auto
  have hh: "n + h - (n + h - (p + 1)) = p + 1"
    using h by simp
  have ws': "shape w = [B, C, p + 1, T]" using h by (simp add: ws)
  have "WN_2d_cpad m i st = Inr (w, st\<lparr>l_audio_queues := Some (qs[i := Some w])\<rparr>)"
    unfolding WN_2d_cpad_def
    by (simp add: q i e ip p a j w ws')
  moreover note ws'
  moreover have "el w [b, c, r, t] =
                 (if r + (n + h - (p + 1)) < n then el old [b, c, r + (n + h - (p + 1)), t]
                  else el (l_audio st) [b, c, r + (n + h - (p + 1)) - n, t])"
    for b c r t
    by (simp add: we je)
  ultimately show ?thesis by blast
qed

text \<open>A queue that is too short for the window stops the call.\<close>

lemma WN_2d_cpad_short:
  assumes q: "l_audio_queues st = Some qs" and i: "i < length qs" and e: "qs ! i = Some old"
    and o: "shape old = [B, C, n, T]"
    and ip: "i < length (padding_h m)" and p: "padding_h m ! i = int p"
    and a: "shape (l_audio st) = [B, C, h, T]" and h: "n + h < p + 1"
  shows "WN_2d_cpad m i st = Inl AssertionError"
proof -
  from tcat2_4d [OF o a]
  obtain j where j: "tcat 2 old (l_audio st) = Inr j"
    and js: "shape j = [B, C, n + h, T]"
    by auto
  from tslice_last_rows [OF js, of p]
  obtain w where w: "tslice 3 2 (Some (- int p - 1)) None j = Inr w"
    and ws: "shape w = [B, C, n + h - (n + h - (p + 1)), T]"
    by auto
  have hh: "n + h - (n + h - (p + 1)) = n + h"
    using h by simp
  have ws': "shape w = [B, C, n + h, T]" using h by (simp add: ws)
  show ?thesis
    unfolding WN_2d_cpad_def
    using h by (simp add: q i e ip p a j w ws')
qed

text \<open>Without queues the window is the whole padded input.\<close>

lemma WN_2d_cpad_batch:
  assumes q: "l_audio_queues st = None"
    and ip: "i < length (padding_h m)" and p: "padding_h m ! i = int p"
    and a: "shape (l_audio st) = [B, C, h, T]"
  shows "\<exists>w. WN_2d_cpad m i st = Inr (w, st) \<and> shape w = [B, C, h + p, T]
           \<and> (\<forall>b c r t. el w [b, c, r, t] =
                 (if r < p then 0 else el (l_audio st) [b, c, r - p, t]))"
proof -
  from pad_top_4d [OF a, of p]
  obtain w where "pad_top (int p) (l_audio st) = Inr w" and "shape w = [B, C, h + p, T]"
    and "\<And>b c r t. el w [b, c, r, t] = (if r < p then 0 else el (l_audio st) [b, c, r - p, t])"
    by auto
  then show ?thesis
    unfolding WN_2d_cpad_def by (simp add: q ip p)
qed

section \<open>The causal padding that the constructor stores\<close>

lemma WN_2d_in_layer_padding:
  assumes "WN_2d_in_layer a \<theta> kw i = Inr (p, l)"
  shows "\<exists>dh. dilation_h (a_n_layers_dilations_h a) i = Inr dh
           \<and> p = (int (a_kernel_size_h a) - 1) * int dh"
  using assms
  by (auto simp: WN_2d_in_layer_def ebind_eq_Inr Let_def split: if_splits)

lemma WN_2d_init_padding_h:
  assumes init: "WN_2d_init a \<theta>0 = Inr m0" and i: "i < n_layers m0"
  shows "\<exists>ds. h_dilate m0 = Some ds \<and> i < length ds \<and> length (padding_h m0) = n_layers m0
           \<and> padding_h m0 ! i = (int (kernel_size_h m0) - 1) * int (ds ! i)"
proof -
  from WN_2d_init_fields [OF init] obtain kw ins where
    ins: "collect (WN_2d_in_layer a \<theta>0 kw) [0..<a_n_layers a] = Inr ins"
    and f: "n_layers m0 = a_n_layers a" "kernel_size_h m0 = a_kernel_size_h a"
      "padding_h m0 = map fst ins"
      "h_dilate m0 = (case a_n_layers_dilations_h a of
                        DNone \<Rightarrow> None
                      | DInt d \<Rightarrow> Some (replicate (a_n_layers a) d)
                      | DList l \<Rightarrow> Some l)"
    by (elim exE conjE) (rule that; assumption)
  have len: "length ins = a_n_layers a" by (rule collect_upt(1) [OF ins])
  from i have i': "i < a_n_layers a" by (simp add: f)
  have "WN_2d_in_layer a \<theta>0 kw i = Inr (fst (ins ! i), snd (ins ! i))"
    using collect_upt(2) [OF ins i'] by simp
  from WN_2d_in_layer_padding [OF this] obtain dh where
    dh: "dilation_h (a_n_layers_dilations_h a) i = Inr dh"
    and p: "fst (ins ! i) = (int (a_kernel_size_h a) - 1) * int dh" by blast
  show ?thesis
  proof (cases "a_n_layers_dilations_h a")
    case DNone
    with dh show ?thesis by (simp add: dilation_h_def)
  next
    case (DInt d)
    with dh p i' show ?thesis by (simp add: dilation_h_def f len)
  next
    case (DList l)
    with dh p i' show ?thesis by (auto simp: dilation_h_def f len split: if_splits)
  qed
qed

lemma WN_2d_cpad_returns:
  assumes "l_audio_queues st = Some qs" and "WN_2d_cpad m i st = Inr (w, st')"
  shows "int (shape w ! 2) = padding_h m ! i + 1 \<and> l_audio_queues st' = Some (qs[i := Some w])"
  using assms
  by (auto simp: WN_2d_cpad_def ebind_eq_Inr list_get_def split: if_splits)

section \<open>The small instance\<close>

lemma upt2: "[0..<2] = [0, 1]"
  by (simp add: numeral_2_eq_2)

lemma example_init:
  "\<exists>m0. WN_2d_init example_args example_values = Inr m0"
  by (simp add: WN_2d_init_def example_args_def new_cond_layers_def upt2
        WN_2d_in_layer_def dilation_h_def dilation_w_def Let_def)

lemma example_WN_2d:
  "\<exists>m0. WN_2d_init example_args example_values = Inr m0
        \<and> example_WN_2d = set_parameters example_values m0"
proof -
  from example_init obtain m0 where "WN_2d_init example_args example_values = Inr m0" ..
  then show ?thesis by (auto simp: example_WN_2d_def)
qed

lemma example_positive: "positive_sizes example_args"
  by (simp add: positive_sizes_def example_args_def dilation_h_def dilation_w_def)

lemma example_fields:
  "n_layers example_WN_2d = 2" "n_channels example_WN_2d = 2"
  "kernel_size_h example_WN_2d = 2" "h_dilate example_WN_2d = Some [1, 1]"
  "merge_res_skip example_WN_2d = False"
proof -
  from example_WN_2d obtain m0 where i: "WN_2d_init example_args example_values = Inr m0"
    and e: "example_WN_2d = set_parameters example_values m0" by blast
  from WN_2d_init_fields [OF i]
  show "n_layers example_WN_2d = 2" "n_channels example_WN_2d = 2"
    "kernel_size_h example_WN_2d = 2" "h_dilate example_WN_2d = Some [1, 1]"
    "merge_res_skip example_WN_2d = False"
    by (auto simp: e example_args_def numeral_2_eq_2)
qed

lemma upt4: "[0..<4] = [0, 1, 2, 3]"
  by (simp add: upt_conv_Cons)

lemma upsampled_init:
  "\<exists>m0. WN_2d_init upsampled_args example_values = Inr m0"
  by (simp add: WN_2d_init_def upsampled_args_def example_args_def new_cond_layers_def
        WN_2d_in_layer_def dilation_h_def dilation_w_def Let_def)

lemma upsampled_WN_2d:
  "\<exists>m0. WN_2d_init upsampled_args example_values = Inr m0
        \<and> upsampled_WN_2d = set_parameters example_values m0"
proof -
  from upsampled_init obtain m0 where "WN_2d_init upsampled_args example_values = Inr m0" ..
  then show ?thesis by (auto simp: upsampled_WN_2d_def)
qed

lemma upsampled_positive: "positive_sizes upsampled_args"
  by (simp add: positive_sizes_def upsampled_args_def example_args_def dilation_h_def
        dilation_w_def)

lemma upsampled_arch: "\<exists>kw. WN_2d_arch upsampled_WN_2d 2 1 2 kw"
proof -
  from upsampled_WN_2d obtain m0 where i: "WN_2d_init upsampled_args example_values = Inr m0"
    and e: "upsampled_WN_2d = set_parameters example_values m0" by blast
  from WN_2d_init_arch [OF i upsampled_positive, of example_values]
  show ?thesis by (simp add: e upsampled_args_def example_args_def)
qed

lemma upsampled_fields:
  "upsample_first upsampled_WN_2d" "speaker_embed_dim upsampled_WN_2d = 0"
  "cond_layers upsampled_WN_2d = []" "padding_h upsampled_WN_2d = [1]"
proof -
  from upsampled_WN_2d obtain m0 where i: "WN_2d_init upsampled_args example_values = Inr m0"
    and e: "upsampled_WN_2d = set_parameters example_values m0" by blast
  from i have "upsample_first m0" "speaker_embed_dim m0 = 0" "cond_layers m0 = []"
    "padding_h m0 = [1]"
    by (auto simp: WN_2d_init_def ebind_eq_Inr upsampled_args_def example_args_def
          new_cond_layers_def WN_2d_in_layer_def dilation_h_def dilation_w_def Let_def
          split: option.splits if_splits)
  then show "upsample_first upsampled_WN_2d" "speaker_embed_dim upsampled_WN_2d = 0"
    "cond_layers upsampled_WN_2d = []" "padding_h upsampled_WN_2d = [1]"
    by (simp_all add: e set_parameters_def set_convs_def)
qed

section \<open>Operations on tensors that agree on a row\<close>

lemma rows_agreeI:
  assumes "shape x = [B, C, Hx + p, T]" "shape y = [B, C, Hy + p, T]" "h < Hx" "h' < Hy"
    and "\<And>b c w r. b < B \<Longrightarrow> c < C \<Longrightarrow> w < T \<Longrightarrow> r \<le> p \<Longrightarrow>
           el x [b, c, h + r, w] = el y [b, c, h' + r, w]"
  shows "rows_agree B C T p x Hx h y Hy h'"
  using assms by (simp add: rows_agree_def)

lemma rows_agreeD:
  assumes "rows_agree B C T p x Hx h y Hy h'"
  shows "shape x = [B, C, Hx + p, T]" "shape y = [B, C, Hy + p, T]" "h < Hx" "h' < Hy"
    and "\<And>b c w r. b < B \<Longrightarrow> c < C \<Longrightarrow> w < T \<Longrightarrow> r \<le> p \<Longrightarrow>
           el x [b, c, h + r, w] = el y [b, c, h' + r, w]"
  using assms by (simp_all add: rows_agree_def)

lemma row_agreeD:
  assumes "rows_agree B C T 0 x Hx h y Hy h'"
  shows "shape x = [B, C, Hx, T]" "shape y = [B, C, Hy, T]" "h < Hx" "h' < Hy"
    and "\<And>b c w. b < B \<Longrightarrow> c < C \<Longrightarrow> w < T \<Longrightarrow> el x [b, c, h, w] = el y [b, c, h', w]"
  using assms by (simp_all add: rows_agree_def)

lemma rows_agree_refl:
  assumes "shape x = [B, C, H + p, T]" "h < H"
  shows "rows_agree B C T p x H h x H h"
  using assms by (simp add: rows_agree_def)

text \<open>A convolution of the architecture on two windows that agree.\<close>

lemma conv2d_agree:
  assumes c: "conv2d_is c cin cout g kh kw dh dw pw"
    and pw: "2 * pw = (kw - 1) * dw" and T: "0 < T" and p: "p = dh * (kh - 1)"
    and r: "rows_agree B cin T p x Hx h y Hy h'"
  shows "\<exists>x' y'. conv2d c x = Inr x' \<and> conv2d c y = Inr y'
           \<and> rows_agree B cout T 0 x' Hx h y' Hy h'"
proof -
  note d = rows_agreeD [OF r]
  have wd: "dw * (kw - 1) < T + 2 * pw" using pw T by (simp add: mult.commute)
  have wk: "T + 2 * pw - dw * (kw - 1) = T" using pw by (simp add: mult.commute)
  have hx: "dh * (kh - 1) < Hx + p" and hy: "dh * (kh - 1) < Hy + p"
    using d(3,4) p by simp_all
  have cx: "conv2d c x = Inr \<lparr>shape = [B, cout, Hx, T], el = conv2d_el c x\<rparr>"
    using conv2d_ok [OF c d(1) hx wd] unfolding wk p by simp
  have cy: "conv2d c y = Inr \<lparr>shape = [B, cout, Hy, T], el = conv2d_el c y\<rparr>"
    using conv2d_ok [OF c d(2) hy wd] unfolding wk p by simp
  have rows: "i * dh \<le> p" if "i < kh" for i
  proof -
    from that have "i \<le> kh - 1" by simp
    then have "i * dh \<le> (kh - 1) * dh" by (rule mult_le_mono1)
    then show ?thesis by (simp add: p mult.commute)
  qed
  have "conv2d_el c x [b, o', h, w] = conv2d_el c y [b, o', h', w]"
    if "b < B" "o' < cout" "w < T" for b o' w
  proof (rule conv2d_el_cong [OF c d(1) d(2) _ _ that(2) that(1)])
    show "h + dh * (kh - 1) < Hx + p" using d(3) p by simp
    show "h' + dh * (kh - 1) < Hy + p" using d(4) p by simp
    show "el x [b, c', h + i * dh, w'] = el y [b, c', h' + i * dh, w']"
      if "c' < cin" "i < kh" "w' < T" for c' i w'
      by (rule d(5) [OF \<open>b < B\<close> that(1) that(3) rows [OF that(2)]])
  qed
  then have "rows_agree B cout T 0 \<lparr>shape = [B, cout, Hx, T], el = conv2d_el c x\<rparr> Hx h
               \<lparr>shape = [B, cout, Hy, T], el = conv2d_el c y\<rparr> Hy h'"
    using d(3,4) by (simp add: rows_agree_def)
  with cx cy show ?thesis by blast
qed

lemma fused_agree:
  assumes r: "rows_agree B (2 * C) T 0 x Hx h y Hy h'" and s: "shape s = [B, 2 * C, 1, T]"
  shows "\<exists>x' y'. fused_add_tanh_sigmoid_multiply x s (int C) = Inr x'
           \<and> fused_add_tanh_sigmoid_multiply y s (int C) = Inr y'
           \<and> rows_agree B C T 0 x' Hx h y' Hy h'"
proof -
  note d = row_agreeD [OF r]
  from fused_4d [OF d(1) s] obtain x' where x': "fused_add_tanh_sigmoid_multiply x s (int C) = Inr x'"
    and xs: "shape x' = [B, C, Hx, T]"
    and xe: "\<And>b c h w. b < B \<Longrightarrow> c < C \<Longrightarrow> h < Hx \<Longrightarrow> w < T \<Longrightarrow>
        el x' [b, c, h, w] = tanh (el x [b, c, h, w] + el s [b, c, 0, w])
                          * sigmoid (el x [b, C + c, h, w] + el s [b, C + c, 0, w])"
    by blast
  from fused_4d [OF d(2) s] obtain y' where y': "fused_add_tanh_sigmoid_multiply y s (int C) = Inr y'"
    and ys: "shape y' = [B, C, Hy, T]"
    and ye: "\<And>b c h w. b < B \<Longrightarrow> c < C \<Longrightarrow> h < Hy \<Longrightarrow> w < T \<Longrightarrow>
        el y' [b, c, h, w] = tanh (el y [b, c, h, w] + el s [b, c, 0, w])
                          * sigmoid (el y [b, C + c, h, w] + el s [b, C + c, 0, w])"
    by blast
  have "rows_agree B C T 0 x' Hx h y' Hy h'"
  proof (rule rows_agreeI)
    fix b c w r assume b: "b < B" and c: "c < C" and w: "w < T" and "r \<le> (0::nat)"
    then have r: "r = 0" by simp
    have 1: "el x [b, c, h, w] = el y [b, c, h', w]" using d(5) [OF b _ w, of c] c by simp
    have 2: "el x [b, C + c, h, w] = el y [b, C + c, h', w]" using d(5) [OF b _ w, of "C + c"] c by simp
    show "el x' [b, c, h + r, w] = el y' [b, c, h' + r, w]"
      by (simp add: r xe [OF b c d(3) w] ye [OF b c d(4) w] 1 2)
  qed (simp_all add: xs ys d)
  with x' y' show ?thesis by blast
qed

lemma slice_to_agree:
  assumes r: "rows_agree B C2 T 0 x Hx h y Hy h'" and c: "C \<le> C2"
  shows "\<exists>x' y'. tslice 3 1 None (Some (int C)) x = Inr x' \<and> tslice 3 1 None (Some (int C)) y = Inr y'
           \<and> rows_agree B C T 0 x' Hx h y' Hy h'"
proof -
  note d = row_agreeD [OF r]
  from tslice_channels_to [OF d(1) c] obtain x' where x': "tslice 3 1 None (Some (int C)) x = Inr x'"
    and xs: "shape x' = [B, C, Hx, T]" and xe: "\<And>b c h w. el x' [b, c, h, w] = el x [b, c, h, w]"
    by blast
  from tslice_channels_to [OF d(2) c] obtain y' where y': "tslice 3 1 None (Some (int C)) y = Inr y'"
    and ys: "shape y' = [B, C, Hy, T]" and ye: "\<And>b c h w. el y' [b, c, h, w] = el y [b, c, h, w]"
    by blast
  have "rows_agree B C T 0 x' Hx h y' Hy h'"
    using d c by (intro rows_agreeI) (simp_all add: xs ys xe ye)
  with x' y' show ?thesis by blast
qed

lemma slice_from_agree:
  assumes r: "rows_agree B C2 T 0 x Hx h y Hy h'" and c: "C \<le> C2"
  shows "\<exists>x' y'. tslice 3 1 (Some (int C)) None x = Inr x' \<and> tslice 3 1 (Some (int C)) None y = Inr y'
           \<and> rows_agree B (C2 - C) T 0 x' Hx h y' Hy h'"
proof -
  note d = row_agreeD [OF r]
  from tslice_channels_from [OF d(1) c] obtain x' where x': "tslice 3 1 (Some (int C)) None x = Inr x'"
    and xs: "shape x' = [B, C2 - C, Hx, T]" and xe: "\<And>b c h w. el x' [b, c, h, w] = el x [b, c + C, h, w]"
    by blast
  from tslice_channels_from [OF d(2) c] obtain y' where y': "tslice 3 1 (Some (int C)) None y = Inr y'"
    and ys: "shape y' = [B, C2 - C, Hy, T]" and ye: "\<And>b c h w. el y' [b, c, h, w] = el y [b, c + C, h, w]"
    by blast
  have "rows_agree B (C2 - C) T 0 x' Hx h y' Hy h'"
    using d c by (intro rows_agreeI) (simp_all add: xs ys xe ye)
  with x' y' show ?thesis by blast
qed

lemma tiadd_agree:
  assumes r: "rows_agree B C T 0 x Hx h y Hy h'" and r': "rows_agree B C T 0 x2 Hx h y2 Hy h'"
  shows "\<exists>x' y'. tiadd x x2 = Inr x' \<and> tiadd y y2 = Inr y'
           \<and> rows_agree B C T 0 x' Hx h y' Hy h'"
proof -
  note d = row_agreeD [OF r] and d' = row_agreeD [OF r']
  from tiadd_4d [OF d(1) d'(1)] obtain x' where x': "tiadd x x2 = Inr x'"
    and xs: "shape x' = [B, C, Hx, T]"
    and xe: "\<And>b c h w. b < B \<Longrightarrow> c < C \<Longrightarrow> h < Hx \<Longrightarrow> w < T \<Longrightarrow>
               el x' [b, c, h, w] = el x [b, c, h, w] + el x2 [b, c, h, w]"
    by blast
  from tiadd_4d [OF d(2) d'(2)] obtain y' where y': "tiadd y y2 = Inr y'"
    and ys: "shape y' = [B, C, Hy, T]"
    and ye: "\<And>b c h w. b < B \<Longrightarrow> c < C \<Longrightarrow> h < Hy \<Longrightarrow> w < T \<Longrightarrow>
               el y' [b, c, h, w] = el y [b, c, h, w] + el y2 [b, c, h, w]"
    by blast
  have "rows_agree B C T 0 x' Hx h y' Hy h'"
    using d d' by (intro rows_agreeI) (simp_all add: xs ys xe ye)
  with x' y' show ?thesis by blast
qed

lemma odd_kernel_padding:
  assumes "kw mod 2 = (1::nat)"
  shows "2 * (((kw - 1) * dw) div 2) = (kw - 1) * dw"
proof -
  from assms have "even (kw - 1)" by presburger
  then have "even ((kw - 1) * dw)" by simp
  then show ?thesis by simp
qed

lemma pointwise_agree:
  assumes c: "pointwise c cin cout" and T: "0 < T"
    and r: "rows_agree B cin T 0 x Hx h y Hy h'"
  shows "\<exists>x' y'. conv2d c x = Inr x' \<and> conv2d c y = Inr y'
           \<and> rows_agree B cout T 0 x' Hx h y' Hy h'"
  using conv2d_agree [OF c [unfolded pointwise_def] _ T _ r] by simp

lemma in_layer_agree:
  assumes l: "in_layer_is l C kh kw dh dw" and T: "0 < T" and p: "p = dh * (kh - 1)"
    and r: "rows_agree B C T p x Hx h y Hy h'"
  shows "\<exists>x' y'. sequential conv2d l x = Inr x' \<and> sequential conv2d l y = Inr y'
           \<and> rows_agree B (2 * C) T 0 x' Hx h y' Hy h'"
proof -
  from l have kw: "kw mod 2 = 1" by (simp add: in_layer_is_def)
  note pw = odd_kernel_padding [OF kw, of dw]
  from l consider
    (plain) c where "l = [c]" "conv2d_is c C (2 * C) 1 kh kw dh dw (((kw - 1) * dw) div 2)"
    | (separable) c1 c2 where "l = [c1, c2]"
        "conv2d_is c1 C C C kh kw dh dw (((kw - 1) * dw) div 2)" "pointwise c2 C (2 * C)"
    by (auto simp: in_layer_is_def)
  then show ?thesis
  proof cases
    case plain
    from conv2d_agree [OF plain(2) pw T p r] show ?thesis
      by (auto simp: plain(1))
  next
    case separable
    from conv2d_agree [OF separable(2) pw T p r] obtain x1 y1 where
      1: "conv2d c1 x = Inr x1" "conv2d c1 y = Inr y1" and r1: "rows_agree B C T 0 x1 Hx h y1 Hy h'"
      by blast
    from pointwise_agree [OF separable(3) T r1] show ?thesis
      by (auto simp: separable(1) 1)
  qed
qed

lemma archD:
  assumes "WN_2d_arch m C L kh kw"
  shows "n_channels m = C" "n_layers m = L" "kernel_size_h m = kh"
    "length (in_layers m) = L" "length (padding_h m) = L"
    "pointwise (start m) 1 C" "pointwise (end_conv m) C 2"
    "\<And>i. i < L \<Longrightarrow> \<exists>dh dw. padding_h m ! i = (int kh - 1) * int dh
                      \<and> in_layer_is (in_layers m ! i) C kh kw dh dw"
    "res_skip_layers m = [] \<Longrightarrow> merge_res_skip m \<or> L = 0"
    "res_skip_layers m \<noteq> [] \<Longrightarrow> length (res_skip_layers m) = L"
    "\<And>i. res_skip_layers m \<noteq> [] \<Longrightarrow> i < L \<Longrightarrow>
        pointwise (res_skip_layers m ! i) C (if i < L - 1 \<and> \<not> merge_res_skip m then 2 * C else C)"
  using assms unfolding WN_2d_arch_def by (simp_all split: if_splits)

lemma arch_layer:
  assumes "WN_2d_arch m C L kh kw" and "i < L"
  shows "\<exists>dh dw. padding_h m ! i = int (dh * (kh - 1))
           \<and> in_layer_is (in_layers m ! i) C kh kw dh dw
           \<and> i < length (in_layers m) \<and> i < length (padding_h m)"
proof -
  note a = archD [OF assms(1)]
  from a(8) [OF assms(2)] obtain dh dw where p: "padding_h m ! i = (int kh - 1) * int dh"
    and l: "in_layer_is (in_layers m ! i) C kh kw dh dw"
    by blast
  note len = a(4,5)
  from l have "0 < kh" by (auto simp: in_layer_is_def conv2d_is_def)
  then have "(int kh - 1) * int dh = int (dh * (kh - 1))"
    by (simp add: of_nat_diff)
  with p l len assms(2) show ?thesis by auto
qed

text \<open>The channels of the output of the res-skip step of layer \<open>i\<close>.\<close>

lemma res_skip_agree:
  assumes arch: "WN_2d_arch m C L kh kw" and i: "i < L" and T: "0 < T"
    and r: "rows_agree B C T 0 x Hx h y Hy h'"
  shows "\<exists>x' y'. res_skip conv2d m i x = Inr x' \<and> res_skip conv2d m i y = Inr y'
           \<and> rows_agree B (if \<not> merge_res_skip m \<and> i < L - 1 then 2 * C else C) T 0 x' Hx h y' Hy h'"
proof (cases "res_skip_layers m = []")
  case True
  with archD(9) [OF arch] i have "merge_res_skip m" by auto
  with True r show ?thesis by (simp add: res_skip_def)
next
  case False
  from archD(10) [OF arch False] i have len: "i < length (res_skip_layers m)" by simp
  note pw = archD(11) [OF arch False i]
  from pointwise_agree [OF pw T r] False len show ?thesis
    by (auto simp: res_skip_def conj_commute)
qed

lemma last_layer_test: "(int i < int L - 1) = (i < L - 1)"
  by auto

lemma WN_2d_accumulate_whole:
  assumes "\<not> (\<not> merge_res_skip m \<and> i < n_layers m - 1)"
  shows "WN_2d_accumulate m i r st =
           (if i = 0 then Inr (st\<lparr>l_output := r\<rparr>)
            else ebind (tiadd (l_output st) r) (\<lambda>output'. Inr (st\<lparr>l_output := output'\<rparr>)))"
proof -
  from assms have "(\<not> merge_res_skip m \<and> int i < int (n_layers m) - 1) = False"
    by (simp add: last_layer_test)
  then show ?thesis
    unfolding WN_2d_accumulate_def by (simp only: if_False if_cancel)
qed

lemma WN_2d_accumulate_agree:
  assumes arch: "WN_2d_arch m C L kh kw" and i: "i < L"
    and r: "rows_agree B (if \<not> merge_res_skip m \<and> i < L - 1 then 2 * C else C) T 0 rx Hx h ry Hy h'"
    and a: "rows_agree B C T 0 (l_audio stx) Hx h (l_audio sty) Hy h'"
    and o: "0 < i \<Longrightarrow> rows_agree B C T 0 (l_output stx) Hx h (l_output sty) Hy h'"
  shows "\<exists>ax ox ay oy.
     WN_2d_accumulate m i rx stx = Inr (stx\<lparr>l_audio := ax, l_output := ox\<rparr>)
     \<and> WN_2d_accumulate m i ry sty = Inr (sty\<lparr>l_audio := ay, l_output := oy\<rparr>)
     \<and> rows_agree B C T 0 ax Hx h ay Hy h' \<and> rows_agree B C T 0 ox Hx h oy Hy h'"
proof -
  note ad = archD [OF arch]
  show ?thesis
  proof (cases "\<not> merge_res_skip m \<and> i < L - 1")
    case True
    then have "(if \<not> merge_res_skip m \<and> i < L - 1 then 2 * C else C) = 2 * C" by (rule if_P)
    with r have r2: "rows_agree B (2 * C) T 0 rx Hx h ry Hy h'" by (simp only:)
    from slice_to_agree [OF r2, of C] obtain x1 y1 where
      1: "tslice 3 1 None (Some (int C)) rx = Inr x1" "tslice 3 1 None (Some (int C)) ry = Inr y1"
      and r1: "rows_agree B C T 0 x1 Hx h y1 Hy h'" by auto
    from tiadd_agree [OF a r1] obtain ax ay where
      2: "tiadd (l_audio stx) x1 = Inr ax" "tiadd (l_audio sty) y1 = Inr ay"
      and ra: "rows_agree B C T 0 ax Hx h ay Hy h'" by blast
    from slice_from_agree [OF r2, of C] obtain x3 y3 where
      3: "tslice 3 1 (Some (int C)) None rx = Inr x3" "tslice 3 1 (Some (int C)) None ry = Inr y3"
      and r3: "rows_agree B C T 0 x3 Hx h y3 Hy h'" by auto
    show ?thesis
    proof (cases "i = 0")
      case i0: True
      have "WN_2d_accumulate m i rx stx = Inr (stx\<lparr>l_audio := ax, l_output := x3\<rparr>)"
        "WN_2d_accumulate m i ry sty = Inr (sty\<lparr>l_audio := ay, l_output := y3\<rparr>)"
        using True i0 by (simp_all add: WN_2d_accumulate_def ad(1,2) last_layer_test 1 2 3 del: One_nat_def)
      with ra r3 show ?thesis by blast
    next
      case False
      then have "0 < i" by simp
      from tiadd_agree [OF o [OF this] r3] obtain ox oy where
        4: "tiadd (l_output stx) x3 = Inr ox" "tiadd (l_output sty) y3 = Inr oy"
        and ro: "rows_agree B C T 0 ox Hx h oy Hy h'" by blast
      have "WN_2d_accumulate m i rx stx = Inr (stx\<lparr>l_audio := ax, l_output := ox\<rparr>)"
        "WN_2d_accumulate m i ry sty = Inr (sty\<lparr>l_audio := ay, l_output := oy\<rparr>)"
        using True False by (simp_all add: WN_2d_accumulate_def ad(1,2) last_layer_test 1 2 3 4 del: One_nat_def)
      with ra ro show ?thesis by blast
    qed
  next
    case False
    then have "(if \<not> merge_res_skip m \<and> i < L - 1 then 2 * C else C) = C" by (rule if_not_P)
    with r have r1: "rows_agree B C T 0 rx Hx h ry Hy h'" by (simp only:)
    from False have c: "\<not> (\<not> merge_res_skip m \<and> i < n_layers m - 1)"
      by (simp add: ad(2))
    show ?thesis
    proof (cases "i = 0")
      case i0: True
      have "WN_2d_accumulate m i rx stx = Inr (stx\<lparr>l_audio := l_audio stx, l_output := rx\<rparr>)"
        "WN_2d_accumulate m i ry sty = Inr (sty\<lparr>l_audio := l_audio sty, l_output := ry\<rparr>)"
        unfolding WN_2d_accumulate_whole [OF c] using i0 by simp_all
      with a r1 show ?thesis by blast
    next
      case i1: False
      then have "0 < i" by simp
      from tiadd_agree [OF o [OF this] r1] obtain ox oy where
        4: "tiadd (l_output stx) rx = Inr ox" "tiadd (l_output sty) ry = Inr oy"
        and ro: "rows_agree B C T 0 ox Hx h oy Hy h'" by blast
      have "WN_2d_accumulate m i rx stx = Inr (stx\<lparr>l_audio := l_audio stx, l_output := ox\<rparr>)"
        "WN_2d_accumulate m i ry sty = Inr (sty\<lparr>l_audio := l_audio sty, l_output := oy\<rparr>)"
        unfolding WN_2d_accumulate_whole [OF c] using i1 by (simp_all add: 4)
      with a ro show ?thesis by blast
    qed
  qed
qed

lemma WN_2d_tail_agree:
  assumes arch: "WN_2d_arch m C L kh kw" and i: "i < L" and T: "0 < T"
    and p: "padding_h m ! i = int p"
    and w: "rows_agree B C T p wx Hx h wy Hy h'"
    and sx: "l_spec stx = Some s" and sy: "l_spec sty = Some s"
    and s: "shape s = [B, 2 * C, 1, T]"
    and a: "rows_agree B C T 0 (l_audio stx) Hx h (l_audio sty) Hy h'"
    and o: "0 < i \<Longrightarrow> rows_agree B C T 0 (l_output stx) Hx h (l_output sty) Hy h'"
  shows "\<exists>ax ox ay oy.
     WN_2d_tail m i wx stx = Inr (stx\<lparr>l_audio := ax, l_output := ox\<rparr>)
     \<and> WN_2d_tail m i wy sty = Inr (sty\<lparr>l_audio := ay, l_output := oy\<rparr>)
     \<and> rows_agree B C T 0 ax Hx h ay Hy h' \<and> rows_agree B C T 0 ox Hx h oy Hy h'"
proof -
  note ad = archD [OF arch]
  from arch_layer [OF arch i] obtain dh dw where
    pd: "padding_h m ! i = int (dh * (kh - 1))"
    and l: "in_layer_is (in_layers m ! i) C kh kw dh dw"
    and len: "i < length (in_layers m)" by blast
  have p': "p = dh * (kh - 1)"
    by (rule of_nat_eq_iff [THEN iffD1, OF trans [OF p [symmetric] pd]])
  from in_layer_agree [OF l T p' w] obtain x1 y1 where
    1: "sequential conv2d (in_layers m ! i) wx = Inr x1"
       "sequential conv2d (in_layers m ! i) wy = Inr y1"
    and r1: "rows_agree B (2 * C) T 0 x1 Hx h y1 Hy h'" by blast
  from fused_agree [OF r1 s] obtain x2 y2 where
    2: "fused_add_tanh_sigmoid_multiply x1 s (int C) = Inr x2"
       "fused_add_tanh_sigmoid_multiply y1 s (int C) = Inr y2"
    and r2: "rows_agree B C T 0 x2 Hx h y2 Hy h'" by blast
  from res_skip_agree [OF arch i T r2] obtain x3 y3 where
    3: "res_skip conv2d m i x2 = Inr x3" "res_skip conv2d m i y2 = Inr y3"
    and r3: "rows_agree B (if \<not> merge_res_skip m \<and> i < L - 1 then 2 * C else C) T 0 x3 Hx h y3 Hy h'"
    by blast
  from WN_2d_accumulate_agree [OF arch i r3 a o] obtain ax ox ay oy where
    4: "WN_2d_accumulate m i x3 stx = Inr (stx\<lparr>l_audio := ax, l_output := ox\<rparr>)"
       "WN_2d_accumulate m i y3 sty = Inr (sty\<lparr>l_audio := ay, l_output := oy\<rparr>)"
    and r4: "rows_agree B C T 0 ax Hx h ay Hy h'" "rows_agree B C T 0 ox Hx h oy Hy h'"
    by blast
  have "WN_2d_tail m i wx stx = Inr (stx\<lparr>l_audio := ax, l_output := ox\<rparr>)"
    "WN_2d_tail m i wy sty = Inr (sty\<lparr>l_audio := ay, l_output := oy\<rparr>)"
    by (simp_all add: WN_2d_tail_def len sx sy ad(1) 1 2 3 4)
  with r4 show ?thesis by blast
qed

section \<open>One round of the loop of WN\_2d.forward\<close>

lemma for_range_snoc:
  "for_range body (js @ [j]) st = ebind (for_range body js st) (body j)"
  by (induction js arbitrary: st) (auto simp: ebind_def split: sum.splits)

lemma for_range_Suc:
  "for_range body [0..<Suc j] st = ebind (for_range body [0..<j] st) (body j)"
  by (simp add: for_range_snoc)

text \<open>The conditioning slice of layer \<open>i\<close> when no queue of slices is in use.\<close>

lemma WN_2d_spec_slice:
  assumes arch: "WN_2d_arch m C L kh kw" and i: "i < L"
    and sp: "shape sp = [B, 2 * C * L, 1, T]" and q: "no_spect_queue (l_spect_queues st)"
  shows "\<exists>s. WN_2d_spec m sp i st = Inr (st\<lparr>l_spec := Some s\<rparr>) \<and> shape s = [B, 2 * C, 1, T]
             \<and> tslice 2 1 (Some (int (i * 2 * C))) (Some (int ((i + 1) * 2 * C))) sp = Inr s"
proof -
  have le: "i * 2 * C \<le> (i + 1) * 2 * C" by simp
  from i have "i + 1 \<le> L" by simp
  then have "(i + 1) * (2 * C) \<le> L * (2 * C)" by (rule mult_le_mono1)
  then have hi: "(i + 1) * 2 * C \<le> 2 * C * L" by (simp add: ac_simps)
  from tslice_channels [OF sp le hi] obtain s where
    s: "tslice 2 1 (Some (int (i * 2 * C))) (Some (int ((i + 1) * 2 * C))) sp = Inr s"
    and ss: "shape s = [B, (i + 1) * 2 * C - i * 2 * C, 1, T]" by blast
  have "(i + 1) * 2 * C - i * 2 * C = 2 * C" by simp
  with ss have ss': "shape s = [B, 2 * C, 1, T]" by simp
  have "WN_2d_spec m sp i st = Inr (st\<lparr>l_spec := Some s\<rparr>)"
    unfolding WN_2d_spec_def using q s by (simp add: archD(1) [OF arch])
  with ss' s show ?thesis by blast
qed

lemma no_spect_queue_None [simp]: "no_spect_queue None"
  by (simp add: no_spect_queue_def)

lemma WN_2d_layer_batch:
  assumes arch: "WN_2d_arch m C L kh kw" and i: "i < L" and T: "0 < T" and n: "0 < n"
    and sp: "shape sp = [B, 2 * C * L, 1, T]"
    and bq: "l_audio_queues st = None" "l_spect_queues st = None"
    and a: "shape (l_audio st) = [B, C, n, T]"
    and o: "0 < i \<Longrightarrow> shape (l_output st) = [B, C, n, T]"
  shows "\<exists>s a' o'. WN_2d_layer m sp i st = Inr (st\<lparr>l_spec := Some s, l_audio := a', l_output := o'\<rparr>)
           \<and> shape a' = [B, C, n, T] \<and> shape o' = [B, C, n, T]"
proof -
  from WN_2d_spec_slice [OF arch i sp, of st] bq obtain s where
    s: "WN_2d_spec m sp i st = Inr (st\<lparr>l_spec := Some s\<rparr>)" and ss: "shape s = [B, 2 * C, 1, T]"
    by auto
  let ?st = "st\<lparr>l_spec := Some s\<rparr>"
  from arch_layer [OF arch i] obtain dh dw where
    pd: "padding_h m ! i = int (dh * (kh - 1))" and len: "i < length (padding_h m)" by blast
  from WN_2d_cpad_batch [of ?st i m "dh * (kh - 1)" B C n T] bq a len pd obtain w where
    w: "WN_2d_cpad m i ?st = Inr (w, ?st)" and ws: "shape w = [B, C, n + dh * (kh - 1), T]"
    by auto
  have rw: "rows_agree B C T (dh * (kh - 1)) w n 0 w n 0"
    by (rule rows_agree_refl [OF ws n])
  have ra: "rows_agree B C T 0 (l_audio ?st) n 0 (l_audio ?st) n 0"
    by (rule rows_agree_refl) (simp_all add: a n)
  have ro: "rows_agree B C T 0 (l_output ?st) n 0 (l_output ?st) n 0" if "0 < i"
    by (rule rows_agree_refl) (simp_all add: o [OF that] n)
  from WN_2d_tail_agree [OF arch i T pd rw _ _ ss ra ro] obtain ax ox where
    t: "WN_2d_tail m i w ?st = Inr (?st\<lparr>l_audio := ax, l_output := ox\<rparr>)"
    and r: "rows_agree B C T 0 ax n 0 ax n 0 \<or> True" "\<exists>ay. rows_agree B C T 0 ax n 0 ay n 0"
      "\<exists>oy. rows_agree B C T 0 ox n 0 oy n 0"
    by auto
  from r(2) have "shape ax = [B, C, n, T]" by (auto dest: row_agreeD(1))
  moreover from r(3) have "shape ox = [B, C, n, T]" by (auto dest: row_agreeD(1))
  moreover have "WN_2d_layer m sp i st = Inr (st\<lparr>l_spec := Some s, l_audio := ax, l_output := ox\<rparr>)"
    by (simp add: WN_2d_layer_def s w t)
  ultimately show ?thesis by blast
qed

lemma WN_2d_layer_agree:
  assumes arch: "WN_2d_arch m C L kh kw" and i: "i < L" and T: "0 < T"
    and sp: "shape sp = [B, 2 * C * L, 1, T]"
    and p: "padding_h m ! i = int p"
    and bq: "l_audio_queues bst = None" "l_spect_queues bst = None"
    and sq: "l_audio_queues sst = Some qs" "i < length qs" "l_spect_queues sst = None"
    and a: "rows_agree B C T 0 (l_audio sst) 1 0 (l_audio bst) n k"
    and o: "0 < i \<Longrightarrow> rows_agree B C T 0 (l_output sst) 1 0 (l_output bst) n k"
    and q: "(k = 0 \<and> qs ! i = None)
            \<or> (0 < k \<and> (\<exists>old. qs ! i = Some old \<and> window_of B C T p (k - 1) old (l_audio bst)))"
  shows "\<exists>s w ax ox ay oy.
     WN_2d_layer m sp i sst =
       Inr (sst\<lparr>l_spec := Some s, l_audio_queues := Some (qs[i := Some w]),
                l_audio := ax, l_output := ox\<rparr>)
     \<and> WN_2d_layer m sp i bst = Inr (bst\<lparr>l_spec := Some s, l_audio := ay, l_output := oy\<rparr>)
     \<and> window_of B C T p k w (l_audio bst)
     \<and> rows_agree B C T 0 ax 1 0 ay n k \<and> rows_agree B C T 0 ox 1 0 oy n k"
proof -
  note da = row_agreeD [OF a]
  from WN_2d_spec_slice [OF arch i sp, of bst] bq obtain s where
    sb: "WN_2d_spec m sp i bst = Inr (bst\<lparr>l_spec := Some s\<rparr>)" and ss: "shape s = [B, 2 * C, 1, T]"
    and sl: "tslice 2 1 (Some (int (i * 2 * C))) (Some (int ((i + 1) * 2 * C))) sp = Inr s"
    by auto
  from WN_2d_spec_slice [OF arch i sp, of sst] sq sl have
    sx: "WN_2d_spec m sp i sst = Inr (sst\<lparr>l_spec := Some s\<rparr>)"
    by auto
  let ?bst = "bst\<lparr>l_spec := Some s\<rparr>" and ?sst = "sst\<lparr>l_spec := Some s\<rparr>"
  from arch_layer [OF arch i] have len: "i < length (padding_h m)" by blast
  from WN_2d_cpad_batch [of ?bst i m p B C n T] bq da(2) len p obtain wy where
    wy: "WN_2d_cpad m i ?bst = Inr (wy, ?bst)" and wys: "shape wy = [B, C, n + p, T]"
    and wye: "\<And>b c r t. el wy [b, c, r, t] = (if r < p then 0 else el (l_audio bst) [b, c, r - p, t])"
    by auto
  have "\<exists>wx. WN_2d_cpad m i ?sst = Inr (wx, ?sst\<lparr>l_audio_queues := Some (qs[i := Some wx])\<rparr>)
          \<and> window_of B C T p k wx (l_audio bst)"
    using q
  proof (elim disjE conjE exE)
    assume k: "k = 0" and e: "qs ! i = None"
    from WN_2d_cpad_first [of ?sst qs i m p B C 1 T] sq e len p da(1) obtain wx where
      wx: "WN_2d_cpad m i ?sst = Inr (wx, ?sst\<lparr>l_audio_queues := Some (qs[i := Some wx])\<rparr>)"
      and wxs: "shape wx = [B, C, p + 1, T]"
      and wxe: "\<And>b c r t. el wx [b, c, r, t] =
                 (if r < p then 0 else el (l_audio sst) [b, c, r - p, t])"
      by auto
    have "window_of B C T p k wx (l_audio bst)"
      unfolding window_of_def
    proof (intro conjI allI impI)
      fix b c w r assume "b < B" "c < C" "w < T" "r \<le> p"
      then show "el wx [b, c, r, w] = (if k + r < p then 0 else el (l_audio bst) [b, c, k + r - p, w])"
        using da(5) [of b c w] by (auto simp: wxe k)
    qed (rule wxs)
    with wx show ?thesis by blast
  next
    fix old assume k: "0 < k" and e: "qs ! i = Some old"
      and wo: "window_of B C T p (k - 1) old (l_audio bst)"
    from wo have os: "shape old = [B, C, p + 1, T]"
      and oe: "\<And>b c w r. b < B \<Longrightarrow> c < C \<Longrightarrow> w < T \<Longrightarrow> r \<le> p \<Longrightarrow>
               el old [b, c, r, w] =
                 (if k - 1 + r < p then 0 else el (l_audio bst) [b, c, k - 1 + r - p, w])"
      by (simp_all add: window_of_def)
    from WN_2d_cpad_next [of ?sst qs i old B C "p + 1" T m p 1] sq e os len p da(1) obtain wx where
      wx: "WN_2d_cpad m i ?sst = Inr (wx, ?sst\<lparr>l_audio_queues := Some (qs[i := Some wx])\<rparr>)"
      and wxs: "shape wx = [B, C, p + 1, T]"
      and wxe: "\<And>b c r t. el wx [b, c, r, t] =
                 (if r < p then el old [b, c, r + 1, t] else el (l_audio sst) [b, c, r - p, t])"
      by auto
    have "window_of B C T p k wx (l_audio bst)"
      unfolding window_of_def
    proof (intro conjI allI impI)
      fix b c w r assume b: "b < B" and c: "c < C" and w: "w < T" and r: "r \<le> p"
      show "el wx [b, c, r, w] = (if k + r < p then 0 else el (l_audio bst) [b, c, k + r - p, w])"
      proof (cases "r < p")
        case True
        then have "r + 1 \<le> p" by simp
        from oe [OF b c w this] True k show ?thesis by (simp add: wxe)
      next
        case False
        with r have "r = p" by simp
        then show ?thesis using da(5) [OF b c w] by (simp add: wxe)
      qed
    qed (rule wxs)
    with wx show ?thesis by blast
  qed
  then obtain wx where
    wx: "WN_2d_cpad m i ?sst = Inr (wx, ?sst\<lparr>l_audio_queues := Some (qs[i := Some wx])\<rparr>)"
    and wo: "window_of B C T p k wx (l_audio bst)" by blast
  have rw: "rows_agree B C T p wx 1 0 wy n k"
  proof (rule rows_agreeI)
    show "shape wx = [B, C, 1 + p, T]" using wo by (simp add: window_of_def)
    show "shape wy = [B, C, n + p, T]" by (rule wys)
    show "0 < (1::nat)" by simp
    show "k < n" by (rule da(4))
    fix b c w r assume "b < B" "c < C" "w < T" "r \<le> p"
    with wo show "el wx [b, c, 0 + r, w] = el wy [b, c, k + r, w]"
      by (simp add: window_of_def wye)
  qed
  let ?sst' = "?sst\<lparr>l_audio_queues := Some (qs[i := Some wx])\<rparr>"
  have a': "rows_agree B C T 0 (l_audio ?sst') 1 0 (l_audio ?bst) n k" using a by simp
  have o': "rows_agree B C T 0 (l_output ?sst') 1 0 (l_output ?bst) n k" if "0 < i"
    using o [OF that] by simp
  from WN_2d_tail_agree [OF arch i T p rw _ _ ss a' o'] obtain ax ox ay oy where
    t: "WN_2d_tail m i wx ?sst' = Inr (?sst'\<lparr>l_audio := ax, l_output := ox\<rparr>)"
       "WN_2d_tail m i wy ?bst = Inr (?bst\<lparr>l_audio := ay, l_output := oy\<rparr>)"
    and r: "rows_agree B C T 0 ax 1 0 ay n k" "rows_agree B C T 0 ox 1 0 oy n k"
    by auto
  have "WN_2d_layer m sp i sst = Inr (?sst'\<lparr>l_audio := ax, l_output := ox\<rparr>)"
    "WN_2d_layer m sp i bst = Inr (?bst\<lparr>l_audio := ay, l_output := oy\<rparr>)"
    by (simp_all add: WN_2d_layer_def sx sb wx wy t)
  with wo r show ?thesis by blast
qed

lemma arch_padding_nat:
  assumes "WN_2d_arch m C L kh kw" and "i < L"
  shows "padding_h m ! i = int (nat (padding_h m ! i))"
  using arch_layer [OF assms] by auto

text \<open>The batch pass runs through all its rounds.\<close>

lemma WN_2d_batch_run:
  assumes arch: "WN_2d_arch m C L kh kw" and T: "0 < T" and n: "0 < n"
    and sp: "shape sp = [B, 2 * C * L, 1, T]"
    and bq: "l_audio_queues st0 = None" "l_spect_queues st0 = None"
    and a: "shape (l_audio st0) = [B, C, n, T]" and o: "shape (l_output st0) = [B, C, n, T]"
    and j: "j \<le> L"
  shows "\<exists>st. for_range (WN_2d_layer m sp) [0..<j] st0 = Inr st
           \<and> l_audio_queues st = None \<and> l_spect_queues st = None
           \<and> shape (l_audio st) = [B, C, n, T] \<and> shape (l_output st) = [B, C, n, T]"
  using j
proof (induction j)
  case 0
  with bq a o show ?case by simp
next
  case (Suc j)
  then have jL: "j < L" by simp
  from Suc obtain st where st: "for_range (WN_2d_layer m sp) [0..<j] st0 = Inr st"
    and q: "l_audio_queues st = None" "l_spect_queues st = None"
    and s: "shape (l_audio st) = [B, C, n, T]" "shape (l_output st) = [B, C, n, T]"
    by auto
  from WN_2d_layer_batch [OF arch jL T n sp q s(1) s(2)] obtain s' a' o' where
    l: "WN_2d_layer m sp j st = Inr (st\<lparr>l_spec := Some s', l_audio := a', l_output := o'\<rparr>)"
    and s': "shape a' = [B, C, n, T]" "shape o' = [B, C, n, T]" by blast
  show ?case
    unfolding for_range_Suc by (simp add: st l q s')
qed

lemma state_after_eq:
  "for_range (WN_2d_layer m sp) [0..<j] st0 = Inr st \<Longrightarrow> state_after m sp st0 j = st"
  by (simp add: state_after_def)

lemma queues_beforeD:
  assumes "queues_before m B C T sp st k qs" and "i < n_layers m"
  shows "if k = 0 then qs ! i = None
         else (\<exists>old. qs ! i = Some old
                 \<and> window_of B C T (nat (padding_h m ! i)) (k - 1) old
                      (l_audio (state_after m sp st i)))"
proof -
  from assms(1) have "\<forall>i < n_layers m.
           if k = 0 then qs ! i = None
           else (\<exists>old. qs ! i = Some old
                   \<and> window_of B C T (nat (padding_h m ! i)) (k - 1) old
                        (l_audio (state_after m sp st i)))"
    unfolding queues_before_def by (rule conjunct2)
  then show ?thesis using assms(2) by (elim allE [of _ i] impE) assumption+
qed

text \<open>A streaming step follows the batch pass round by round.\<close>

lemma WN_2d_stream_run:
  assumes arch: "WN_2d_arch m C L kh kw" and T: "0 < T" and n: "0 < n"
    and sp: "shape sp = [B, 2 * C * L, 1, T]"
    and bq: "l_audio_queues bst0 = None" "l_spect_queues bst0 = None"
    and ba: "shape (l_audio bst0) = [B, C, n, T]" and bo: "shape (l_output bst0) = [B, C, n, T]"
    and sq: "l_audio_queues sst0 = Some qs" "l_spect_queues sst0 = None"
    and qb: "queues_before m B C T sp bst0 k qs"
    and a: "rows_agree B C T 0 (l_audio sst0) 1 0 (l_audio bst0) n k"
    and o: "rows_agree B C T 0 (l_output sst0) 1 0 (l_output bst0) n k"
    and j: "j \<le> L"
  shows "\<exists>sst qs'. for_range (WN_2d_layer m sp) [0..<j] sst0 = Inr sst
           \<and> l_audio_queues sst = Some qs' \<and> length qs' = L \<and> l_spect_queues sst = None
           \<and> (\<forall>i<j. \<exists>w. qs' ! i = Some w
                  \<and> window_of B C T (nat (padding_h m ! i)) k w (l_audio (state_after m sp bst0 i)))
           \<and> (\<forall>i. j \<le> i \<and> i < L \<longrightarrow> qs' ! i = qs ! i)
           \<and> rows_agree B C T 0 (l_audio sst) 1 0 (l_audio (state_after m sp bst0 j)) n k
           \<and> rows_agree B C T 0 (l_output sst) 1 0 (l_output (state_after m sp bst0 j)) n k"
  using j
proof (induction j)
  case 0
  from qb have "length qs = L" by (simp add: queues_before_def archD(2) [OF arch])
  with sq a o show ?case by (simp add: state_after_def)
next
  case (Suc j)
  then have jL: "j < L" and jL': "j \<le> L" by simp_all
  let ?p = "nat (padding_h m ! j)"
  note p = arch_padding_nat [OF arch jL]
  from Suc.IH [OF jL'] obtain sst qs' where
    st: "for_range (WN_2d_layer m sp) [0..<j] sst0 = Inr sst"
    and q': "l_audio_queues sst = Some qs'" "length qs' = L" "l_spect_queues sst = None"
    and upd0: "\<forall>i<j. \<exists>w. qs' ! i = Some w
                  \<and> window_of B C T (nat (padding_h m ! i)) k w (l_audio (state_after m sp bst0 i))"
    and rest0: "\<forall>i. j \<le> i \<and> i < L \<longrightarrow> qs' ! i = qs ! i"
    and ra: "rows_agree B C T 0 (l_audio sst) 1 0 (l_audio (state_after m sp bst0 j)) n k"
    and ro: "rows_agree B C T 0 (l_output sst) 1 0 (l_output (state_after m sp bst0 j)) n k"
    by (elim exE conjE) (rule that; assumption)
  from upd0 have upd: "\<exists>w. qs' ! i = Some w
      \<and> window_of B C T (nat (padding_h m ! i)) k w (l_audio (state_after m sp bst0 i))"
    if "i < j" for i using that by blast
  from rest0 have rest: "qs' ! i = qs ! i" if "j \<le> i" "i < L" for i using that by blast
  from WN_2d_batch_run [OF arch T n sp bq ba bo jL'] obtain bst where
    bst: "for_range (WN_2d_layer m sp) [0..<j] bst0 = Inr bst"
    and bq': "l_audio_queues bst = None" "l_spect_queues bst = None" by blast
  have sa: "state_after m sp bst0 j = bst" by (rule state_after_eq [OF bst])
  have qj: "(k = 0 \<and> qs' ! j = None)
            \<or> (0 < k \<and> (\<exists>old. qs' ! j = Some old \<and> window_of B C T ?p (k - 1) old (l_audio bst)))"
  proof -
    from jL have "j < n_layers m" by (simp add: archD(2) [OF arch])
    from queues_beforeD [OF qb this] show ?thesis
      unfolding sa rest [OF le_refl jL] by (cases "k = 0") simp_all
  qed
  from jL q' have jq: "j < length qs'" by simp
  from WN_2d_layer_agree [OF arch jL T sp p bq' q'(1) jq q'(3) ra [unfolded sa] ro [unfolded sa] qj]
  obtain s w ax ox ay oy where
    ls: "WN_2d_layer m sp j sst =
       Inr (sst\<lparr>l_spec := Some s, l_audio_queues := Some (qs'[j := Some w]),
                l_audio := ax, l_output := ox\<rparr>)"
    and lb: "WN_2d_layer m sp j bst = Inr (bst\<lparr>l_spec := Some s, l_audio := ay, l_output := oy\<rparr>)"
    and wo: "window_of B C T ?p k w (l_audio bst)"
    and r: "rows_agree B C T 0 ax 1 0 ay n k" "rows_agree B C T 0 ox 1 0 oy n k"
    by blast
  have sb: "state_after m sp bst0 (Suc j) = bst\<lparr>l_spec := Some s, l_audio := ay, l_output := oy\<rparr>"
    by (rule state_after_eq) (simp add: for_range_snoc bst lb)
  let ?sst = "sst\<lparr>l_spec := Some s, l_audio_queues := Some (qs'[j := Some w]),
                l_audio := ax, l_output := ox\<rparr>"
  have 1: "for_range (WN_2d_layer m sp) [0..<Suc j] sst0 = Inr ?sst"
    by (simp add: for_range_snoc st ls)
  have 2: "\<exists>w'. qs'[j := Some w] ! i = Some w'
                  \<and> window_of B C T (nat (padding_h m ! i)) k w' (l_audio (state_after m sp bst0 i))"
    if "i < Suc j" for i
  proof (cases "i = j")
    case True
    with wo jq show ?thesis by (simp add: sa)
  next
    case False
    with that have "i < j" by simp
    from upd [OF this] False show ?thesis by simp
  qed
  have 3: "qs'[j := Some w] ! i = qs ! i" if "Suc j \<le> i" "i < L" for i
    using that rest [of i] by simp
  show ?case
  proof (intro exI [of _ ?sst] exI [of _ "qs'[j := Some w]"] conjI allI impI)
    show "for_range (WN_2d_layer m sp) [0..<Suc j] sst0 = Inr ?sst" by (rule 1)
    show "\<exists>w'. qs'[j := Some w] ! i = Some w'
                  \<and> window_of B C T (nat (padding_h m ! i)) k w' (l_audio (state_after m sp bst0 i))"
      if "i < Suc j" for i by (rule 2 [OF that])
    show "qs'[j := Some w] ! i = qs ! i" if "Suc j \<le> i \<and> i < L" for i
      using that by (intro 3) simp_all
  qed (simp_all add: q' sb r del: One_nat_def)
qed

section \<open>Claim about fused\_add\_tanh\_sigmoid\_multiply\<close>

text \<open>
  C8. For tensors \<open>a\<close>, \<open>b\<close> of shape \<open>[B, 2C, T]\<close> and the channel count \<open>C\<close>,
  \<open>fused_add_tanh_sigmoid_multiply(a, b, C)\<close> returns a tensor of shape \<open>[B, C, T]\<close>
  whose element at \<open>[i, c, t]\<close> is \<open>tanh((a+b)[i, c, t]) * sigmoid((a+b)[i, C + c, t])\<close>,
  of magnitude at most 1.
\<close>

theorem fused_add_tanh_sigmoid_multiply_correct:
  assumes "shape a = [B, 2 * C, T]" and "shape b = [B, 2 * C, T]"
  shows "\<exists>r. fused_add_tanh_sigmoid_multiply a b (int C) = Inr r \<and> shape r = [B, C, T] \<and>
     (\<forall>i c t. i < B \<and> c < C \<and> t < T \<longrightarrow>
        el r [i, c, t] = tanh (el a [i, c, t] + el b [i, c, t])
                          * sigmoid (el a [i, C + c, t] + el b [i, C + c, t])
        \<and> \<bar>el r [i, c, t]\<bar> \<le> 1)"
  unfolding fused_add_tanh_sigmoid_multiply_def tadd_def tmul_def tbinop_def
  by (simp add: assms tslice_def slice_range_def slice_bound_def bindex_in_range
        abs_tanh_sigmoid_le_1 add.commute)

theorem fused_add_tanh_sigmoid_multiply_correct_witness:
  "\<exists>r. fused_add_tanh_sigmoid_multiply (zeros [1, 2, 1]) (zeros [1, 2, 1]) 1 = Inr r
       \<and> shape r = [1, 1, 1] \<and> el r [0, 0, 0] = 0 \<and> \<bar>el r [0, 0, 0]\<bar> \<le> 1"
  using fused_add_tanh_sigmoid_multiply_correct [of "zeros [1, 2, 1]" 1 1 1 "zeros [1, 2, 1]"]
  by auto

section \<open>Claims about the causal window of WN\_2d\<close>

text \<open>
  C2. For every instance of WN\_2d (constructed, then trained to any parameter values)
  the causal padding stored for layer \<open>i\<close> is \<open>(kernel_size_h - 1) * dilation_h[i]\<close>.
  In streaming mode the queue of layer \<open>i\<close>, lazily initialised to \<open>padding_h[i]\<close> rows of
  zeros on first use, has the new slice appended and only its last \<open>padding_h[i] + 1\<close>
  rows kept, the oldest rows being dropped first: on the first step and on every later
  step, where the queue is the window that the step before stored, the window given to
  the causal convolution has exactly \<open>padding_h[i] + 1\<close> rows and is stored as the new
  queue. A window of any other length is an AssertionError, which a queue too short for
  the window raises.
\<close>

theorem WN_2d_causal_window:
  assumes init: "WN_2d_init a \<theta>0 = Inr m0" and m: "m = set_parameters \<theta> m0"
    and kh: "0 < a_kernel_size_h a" and i: "i < n_layers m"
    and q: "l_audio_queues st = Some qs" and iq: "i < length qs"
    and s: "shape (l_audio st) = [B, C, h, T]" and h: "0 < h"
  shows "\<exists>ds p. h_dilate m = Some ds \<and> i < length ds \<and> length (padding_h m) = n_layers m
     \<and> padding_h m ! i = (int (kernel_size_h m) - 1) * int (ds ! i)
     \<and> padding_h m ! i = int p
     \<and> (qs ! i = None \<longrightarrow>
          (\<exists>w. WN_2d_cpad m i st = Inr (w, st\<lparr>l_audio_queues := Some (qs[i := Some w])\<rparr>)
             \<and> shape w = [B, C, p + 1, T]
             \<and> (\<forall>b c r t. el w [b, c, r, t] =
                   (if r + (h - 1) < p then 0 else el (l_audio st) [b, c, r + (h - 1) - p, t]))))
     \<and> (\<forall>old. qs ! i = Some old \<and> shape old = [B, C, p + 1, T] \<longrightarrow>
          (\<exists>w. WN_2d_cpad m i st = Inr (w, st\<lparr>l_audio_queues := Some (qs[i := Some w])\<rparr>)
             \<and> shape w = [B, C, p + 1, T]
             \<and> (\<forall>b c r t. el w [b, c, r, t] =
                   (if r + h < p + 1 then el old [b, c, r + h, t]
                    else el (l_audio st) [b, c, r + h - (p + 1), t]))))
     \<and> (\<forall>old n. qs ! i = Some old \<and> shape old = [B, C, n, T] \<and> n + h < p + 1 \<longrightarrow>
          WN_2d_cpad m i st = Inl AssertionError)
     \<and> (\<forall>w st'. WN_2d_cpad m i st = Inr (w, st') \<longrightarrow>
          int (shape w ! 2) = padding_h m ! i + 1
          \<and> l_audio_queues st' = Some (qs[i := Some w]))"
proof -
  from i have i0: "i < n_layers m0" by (simp add: m)
  from WN_2d_init_padding_h [OF init i0] obtain ds where
    ds: "h_dilate m = Some ds" "i < length ds" "length (padding_h m) = n_layers m"
    and pd: "padding_h m ! i = (int (kernel_size_h m) - 1) * int (ds ! i)"
    by (auto simp: m)
  from WN_2d_init_fields [OF init] have "kernel_size_h m0 = a_kernel_size_h a" by auto
  with kh have "0 < kernel_size_h m" by (simp add: m)
  then have "0 \<le> padding_h m ! i" by (simp add: pd)
  then obtain p where p: "padding_h m ! i = int p"
    using nonneg_int_cases by blast
  have ip: "i < length (padding_h m)" using i ds by simp
  have first: "\<exists>w. WN_2d_cpad m i st = Inr (w, st\<lparr>l_audio_queues := Some (qs[i := Some w])\<rparr>)
             \<and> shape w = [B, C, p + 1, T]
             \<and> (\<forall>b c r t. el w [b, c, r, t] =
                   (if r + (h - 1) < p then 0 else el (l_audio st) [b, c, r + (h - 1) - p, t]))"
    if "qs ! i = None"
    by (rule WN_2d_cpad_first [OF q iq that ip p s h])
  have nxt: "\<exists>w. WN_2d_cpad m i st = Inr (w, st\<lparr>l_audio_queues := Some (qs[i := Some w])\<rparr>)
             \<and> shape w = [B, C, p + 1, T]
             \<and> (\<forall>b c r t. el w [b, c, r, t] =
                   (if r + h < p + 1 then el old [b, c, r + h, t]
                    else el (l_audio st) [b, c, r + h - (p + 1), t]))"
    if "qs ! i = Some old" and "shape old = [B, C, p + 1, T]" for old
  proof -
    have e: "p + 1 + h - (p + 1) = h" by simp
    from h have "p + 1 \<le> p + 1 + h" by simp
    from WN_2d_cpad_next [OF q iq that ip p s this] show ?thesis
      unfolding e .
  qed
  have short: "WN_2d_cpad m i st = Inl AssertionError"
    if "qs ! i = Some old" and "shape old = [B, C, n, T]" and "n + h < p + 1" for old n
    by (rule WN_2d_cpad_short [OF q iq that(1,2) ip p s that(3)])
  have ret: "int (shape w ! 2) = padding_h m ! i + 1
          \<and> l_audio_queues st' = Some (qs[i := Some w])"
    if "WN_2d_cpad m i st = Inr (w, st')" for w st'
    by (rule WN_2d_cpad_returns [OF q that])
  show ?thesis
  proof (intro exI [of _ ds] exI [of _ p] conjI allI impI)
    show "qs ! i = None \<Longrightarrow>
          \<exists>w. WN_2d_cpad m i st = Inr (w, st\<lparr>l_audio_queues := Some (qs[i := Some w])\<rparr>)
             \<and> shape w = [B, C, p + 1, T]
             \<and> (\<forall>b c r t. el w [b, c, r, t] =
                   (if r + (h - 1) < p then 0 else el (l_audio st) [b, c, r + (h - 1) - p, t]))"
      by (rule first)
    show "\<exists>w. WN_2d_cpad m i st = Inr (w, st\<lparr>l_audio_queues := Some (qs[i := Some w])\<rparr>)
             \<and> shape w = [B, C, p + 1, T]
             \<and> (\<forall>b c r t. el w [b, c, r, t] =
                   (if r + h < p + 1 then el old [b, c, r + h, t]
                    else el (l_audio st) [b, c, r + h - (p + 1), t]))"
      if "qs ! i = Some old \<and> shape old = [B, C, p + 1, T]" for old
      using that by (intro nxt) simp_all
    show "WN_2d_cpad m i st = Inl AssertionError"
      if "qs ! i = Some old \<and> shape old = [B, C, n, T] \<and> n + h < p + 1" for old n
      using that by (intro short [of old n]) simp_all
    show "int (shape w ! 2) = padding_h m ! i + 1" if "WN_2d_cpad m i st = Inr (w, st')" for w st'
      using ret [OF that] by simp
    show "l_audio_queues st' = Some (qs[i := Some w])" if "WN_2d_cpad m i st = Inr (w, st')" for w st'
      using ret [OF that] by simp
  qed (rule ds pd p)+
qed

theorem WN_2d_causal_window_witness:
  "\<exists>w. WN_2d_cpad example_WN_2d 0
          \<lparr>l_audio = zeros [1, 2, 1, 1], l_output = zeros [1, 2, 1, 1], l_spec = None,
           l_audio_queues = Some [None, None], l_spect_queues = None\<rparr>
        = Inr (w, \<lparr>l_audio = zeros [1, 2, 1, 1], l_output = zeros [1, 2, 1, 1], l_spec = None,
                   l_audio_queues = Some [Some w, None], l_spect_queues = None\<rparr>)
       \<and> shape w = [1, 2, 2, 1] \<and> padding_h example_WN_2d ! 0 = 1
       \<and> el w [0, 0, 0, 0] = 0"
proof -
  let ?st = "\<lparr>l_audio = zeros [1, 2, 1, 1], l_output = zeros [1, 2, 1, 1], l_spec = None,
           l_audio_queues = Some [None, None], l_spect_queues = None\<rparr>"
  from example_WN_2d obtain m0 where i: "WN_2d_init example_args example_values = Inr m0"
    and e: "example_WN_2d = set_parameters example_values m0" by blast
  have kh: "0 < a_kernel_size_h example_args" by (simp add: example_args_def)
  have l: "0 < n_layers example_WN_2d" by (simp add: example_fields)
  from WN_2d_causal_window [OF i e kh l, of ?st "[None, None]" 1 2 1 1]
  obtain ds p where "h_dilate example_WN_2d = Some ds"
    and "padding_h example_WN_2d ! 0 = (int (kernel_size_h example_WN_2d) - 1) * int (ds ! 0)"
    and "padding_h example_WN_2d ! 0 = int p"
    and "\<exists>w. WN_2d_cpad example_WN_2d 0 ?st = Inr (w, ?st\<lparr>l_audio_queues := Some ([None, None][0 := Some w])\<rparr>)
             \<and> shape w = [1, 2, p + 1, 1]
             \<and> (\<forall>b c r t. el w [b, c, r, t] =
                   (if r + (1 - 1) < p then 0 else el (l_audio ?st) [b, c, r + (1 - 1) - p, t]))"
    by auto
  then show ?thesis
    by (auto simp: example_fields)
qed

section \<open>The batch pass and a streaming step\<close>

lemma WN_2d_spect_shape_only:
  "shape a ! 3 = shape b ! 3 \<Longrightarrow>
   WN_2d_spect m a spect sid q = WN_2d_spect m b spect sid q"
proof -
  assume e: "shape a ! 3 = shape b ! 3"
  show ?thesis unfolding WN_2d_spect_def e by (rule refl)
qed

lemma WN_2d_initial_simps [simp]:
  "l_audio (WN_2d_initial m a aq sq) = a"
  "l_output (WN_2d_initial m a aq sq) = (if merge_res_skip m then a else zeros (shape a))"
  "l_audio_queues (WN_2d_initial m a aq sq) = aq"
  "l_spect_queues (WN_2d_initial m a aq sq) = sq"
  "l_spec (WN_2d_initial m a aq sq) = None"
  by (simp_all add: WN_2d_initial_def)

text \<open>The batch pass returns, and what it returns.\<close>

lemma WN_2d_forward_batch:
  assumes arch: "WN_2d_arch m C L kh kw" and T: "0 < T" and n: "0 < n"
    and x: "shape audio = [B, n, T]"
    and c: "WN_2d_spect m (zeros [B, C, n, T]) spect sid None = Inr sp"
    and sp: "shape sp = [B, 2 * C * L, 1, T]"
  shows "\<exists>u a2 yb out.
     unsqueeze 1 audio = Inr u \<and> shape u = [B, 1, n, T]
     \<and> (\<forall>b c h w. el u [b, c, h, w] = el audio [b, h, w])
     \<and> conv2d (start m) u = Inr a2 \<and> shape a2 = [B, C, n, T]
     \<and> conv2d (end_conv m) (l_output (state_after m sp (WN_2d_initial m a2 None None) L)) = Inr yb
     \<and> shape yb = [B, 2, n, T]
     \<and> transpose10 yb = Inr out \<and> shape out = [2, B, n, T]
     \<and> (\<forall>i b h w. el out [i, b, h, w] = el yb [b, i, h, w])
     \<and> WN_2d_forward m audio spect sid None None = Inr (RTensor out)"
proof -
  note ad = archD [OF arch]
  from unsqueeze1_3d [OF x] obtain u where u: "unsqueeze 1 audio = Inr u"
    and us: "shape u = [B, 1, n, T]"
    and ue: "\<forall>b c h w. el u [b, c, h, w] = el audio [b, h, w]" by blast
  have ru: "rows_agree B 1 T 0 u n 0 u n 0"
    by (rule rows_agree_refl) (simp_all add: us n)
  from pointwise_agree [OF ad(6) T ru] obtain a2 where a2: "conv2d (start m) u = Inr a2"
    and "\<exists>y. rows_agree B C T 0 a2 n 0 y n 0" by auto
  then have a2s: "shape a2 = [B, C, n, T]" by (auto dest: row_agreeD(1))
  let ?st0 = "WN_2d_initial m a2 None None"
  have c': "WN_2d_spect m a2 spect sid None = Inr sp"
    using c WN_2d_spect_shape_only [of a2 "zeros [B, C, n, T]" m spect sid None]
    by (simp add: a2s)
  have i0: "l_audio_queues ?st0 = None" "l_spect_queues ?st0 = None"
    "shape (l_audio ?st0) = [B, C, n, T]" "shape (l_output ?st0) = [B, C, n, T]"
    by (simp_all add: a2s)
  from WN_2d_batch_run [OF arch T n sp i0 le_refl] obtain st where
    st: "for_range (WN_2d_layer m sp) [0..<L] ?st0 = Inr st"
    and q: "l_audio_queues st = None" "l_spect_queues st = None"
    and so: "shape (l_output st) = [B, C, n, T]"
    by blast
  have sa: "state_after m sp ?st0 L = st" by (rule state_after_eq [OF st])
  have ro: "rows_agree B C T 0 (l_output st) n 0 (l_output st) n 0"
    by (rule rows_agree_refl) (simp_all add: so n)
  from pointwise_agree [OF ad(7) T ro] obtain yb where yb: "conv2d (end_conv m) (l_output st) = Inr yb"
    and "\<exists>y. rows_agree B 2 T 0 yb n 0 y n 0" by auto
  then have ybs: "shape yb = [B, 2, n, T]" by (auto dest: row_agreeD(1))
  from transpose10_4d [OF ybs] obtain out where out: "transpose10 yb = Inr out"
    and os: "shape out = [2, B, n, T]"
    and oe: "\<forall>i b h w. el out [i, b, h, w] = el yb [b, i, h, w]" by blast
  have fw: "WN_2d_forward m audio spect sid None None = Inr (RTensor out)"
    by (simp add: WN_2d_forward_def u a2 c' ad(2) st yb out WN_2d_return_def q del: One_nat_def)
  have yb': "conv2d (end_conv m) (l_output (state_after m sp ?st0 L)) = Inr yb"
    by (simp add: sa yb)
  show ?thesis
    by (intro exI [of _ u] exI [of _ a2] exI [of _ yb] exI [of _ out] conjI)
       (rule u us ue a2 a2s yb' ybs out os oe fw)+
qed

lemma rows_agree_zeros:
  assumes "h < Hx" "h' < Hy"
  shows "rows_agree B C T 0 (zeros [B, C, Hx, T]) Hx h (zeros [B, C, Hy, T]) Hy h'"
  using assms by (simp add: rows_agree_def)

text \<open>One streaming step computes the row of the batch output that has its number.\<close>

lemma WN_2d_forward_step:
  assumes arch: "WN_2d_arch m C L kh kw" and T: "0 < T" and k: "k < n"
    and x: "shape audio = [B, n, T]"
    and c: "WN_2d_spect m (zeros [B, C, n, T]) spect sid None = Inr sp"
    and sp: "shape sp = [B, 2 * C * L, 1, T]"
    and u: "unsqueeze 1 audio = Inr u" and a2: "conv2d (start m) u = Inr a2"
    and yb: "conv2d (end_conv m) (l_output (state_after m sp (WN_2d_initial m a2 None None) L)) = Inr yb"
    and sl: "shape slice = [B, 1, T]"
    and se: "\<And>b t. b < B \<Longrightarrow> t < T \<Longrightarrow> el slice [b, 0, t] = el audio [b, k, t]"
    and qb: "queues_before m B C T sp (WN_2d_initial m a2 None None) k qs"
  shows "\<exists>out qs'.
     WN_2d_forward m slice spect sid (Some qs) None = Inr (RList [ITensor out, IQueues qs'])
     \<and> shape out = [2, B, 1, T]
     \<and> (\<forall>i<2. \<forall>b<B. \<forall>w<T. el out [i, b, 0, w] = el yb [b, i, k, w])
     \<and> queues_before m B C T sp (WN_2d_initial m a2 None None) (Suc k) qs'"
proof -
  note ad = archD [OF arch]
  from k have n: "0 < n" by simp
  let ?b0 = "WN_2d_initial m a2 None None"
  from unsqueeze1_3d [OF x] u have us: "shape u = [B, 1, n, T]"
    and ue: "\<And>b c h w. el u [b, c, h, w] = el audio [b, h, w]" by auto
  from unsqueeze1_3d [OF sl] obtain v where v: "unsqueeze 1 slice = Inr v"
    and vs: "shape v = [B, 1, 1, T]"
    and ve: "\<And>b c h w. el v [b, c, h, w] = el slice [b, h, w]" by blast
  have rv: "rows_agree B 1 T 0 v 1 0 u n k"
    by (rule rows_agreeI) (simp_all add: vs us k ve ue se)
  from pointwise_agree [OF ad(6) T rv] a2 obtain a1 where a1: "conv2d (start m) v = Inr a1"
    and ra: "rows_agree B C T 0 a1 1 0 a2 n k" by auto
  note da = row_agreeD [OF ra]
  let ?s0 = "WN_2d_initial m a1 (Some qs) None"
  have c1: "WN_2d_spect m a1 spect sid None = Inr sp"
    using c WN_2d_spect_shape_only [of a1 "zeros [B, C, n, T]" m spect sid None]
    by (simp add: da(1))
  have ro: "rows_agree B C T 0 (l_output ?s0) 1 0 (l_output ?b0) n k"
    using ra rows_agree_zeros [of 0 1 k n B C T] k by (simp add: da(1,2))
  have b0: "l_audio_queues ?b0 = None" "l_spect_queues ?b0 = None"
    "shape (l_audio ?b0) = [B, C, n, T]" "shape (l_output ?b0) = [B, C, n, T]"
    by (simp_all add: da(2))
  have s0: "l_audio_queues ?s0 = Some qs" "l_spect_queues ?s0 = None" by simp_all
  have ra0: "rows_agree B C T 0 (l_audio ?s0) 1 0 (l_audio ?b0) n k" using ra by simp
  from WN_2d_stream_run [OF arch T n sp b0 s0 qb ra0 ro le_refl]
  obtain sst qs' where
    st: "for_range (WN_2d_layer m sp) [0..<L] ?s0 = Inr sst"
    and q': "l_audio_queues sst = Some qs'" "length qs' = L" "l_spect_queues sst = None"
    and upd0: "\<forall>i<L. \<exists>w. qs' ! i = Some w
                  \<and> window_of B C T (nat (padding_h m ! i)) k w (l_audio (state_after m sp ?b0 i))"
    and rl: "rows_agree B C T 0 (l_output sst) 1 0 (l_output (state_after m sp ?b0 L)) n k"
    by (elim exE conjE) (rule that; assumption)
  from pointwise_agree [OF ad(7) T rl] yb obtain ys where ys: "conv2d (end_conv m) (l_output sst) = Inr ys"
    and ry: "rows_agree B 2 T 0 ys 1 0 yb n k" by auto
  note dy = row_agreeD [OF ry]
  from transpose10_4d [OF dy(1)] obtain out where out: "transpose10 ys = Inr out"
    and os: "shape out = [2, B, 1, T]"
    and oe: "\<And>i b h w. el out [i, b, h, w] = el ys [b, i, h, w]" by blast
  have fw: "WN_2d_forward m slice spect sid (Some qs) None = Inr (RList [ITensor out, IQueues qs'])"
    by (simp add: WN_2d_forward_def v a1 c1 ad(2) st ys out WN_2d_return_def q' del: One_nat_def)
  have el: "\<forall>i<2. \<forall>b<B. \<forall>w<T. el out [i, b, 0, w] = el yb [b, i, k, w]"
    using dy(5) by (simp add: oe)
  have qn: "queues_before m B C T sp ?b0 (Suc k) qs'"
    unfolding queues_before_def using upd0 q'(2) by (simp add: ad(2))
  show ?thesis
    by (intro exI [of _ out] exI [of _ qs'] conjI) (rule fw os el qn)+
qed

lemma upd3 [simp]: "[a, b, c][Suc 0 := v] = [a, v, c]"
  by simp

lemma tslice_row:
  assumes "shape a = [B, n, T]" and "k < n"
  shows "\<exists>r. tslice 3 1 (Some (int k)) (Some (int k + 1)) a = Inr r \<and> shape r = [B, 1, T]
           \<and> (\<forall>b h t. el r [b, h, t] = el a [b, h + k, t])"
proof -
  have "nat (int k + 1) = k + 1" by simp
  then have "slice_bound (int k) n = k" "slice_bound (int k + 1) n = k + 1"
    using assms(2) by (simp_all add: slice_bound_def)
  then show ?thesis
    using assms by (simp add: tslice_def slice_range_def)
qed

lemma collect_total:
  assumes "\<And>j. j \<in> set js \<Longrightarrow> \<exists>x. f j = Inr x"
  shows "\<exists>xs. collect f js = Inr xs"
  using assms
proof (induction js)
  case Nil
  then show ?case by simp
next
  case (Cons j js)
  then obtain x xs where "f j = Inr x" "collect f js = Inr xs"
    by (meson list.set_intros)
  then show ?case by simp
qed

lemma slices_ok:
  assumes x: "shape audio = [B, n, T]"
  shows "\<exists>xs. slices audio = Inr xs \<and> length xs = n
           \<and> (\<forall>k<n. shape (xs ! k) = [B, 1, T]
                 \<and> (\<forall>b t. el (xs ! k) [b, 0, t] = el audio [b, k, t]))"
proof -
  let ?f = "\<lambda>k. tslice 3 1 (Some (int k)) (Some (int k + 1)) audio"
  have "\<exists>xs. collect ?f [0..<n] = Inr xs"
  proof (rule collect_total)
    fix j assume "j \<in> set [0..<n]"
    then have "j < n" by simp
    from tslice_row [OF x this] show "\<exists>r. ?f j = Inr r" by blast
  qed
  then obtain xs where xs: "collect ?f [0..<n] = Inr xs" ..
  note cu = collect_upt [OF xs]
  have "shape (xs ! k) = [B, 1, T] \<and> (\<forall>b t. el (xs ! k) [b, 0, t] = el audio [b, k, t])"
    if "k < n" for k
    using cu(2) [OF that] tslice_row [OF x that] by auto
  with cu(1) xs x show ?thesis by (simp add: slices_def)
qed

lemma unpack2_pair [simp]: "unpack2 (RList [ITensor out, IQueues qs]) = Inr (out, qs)"
  by (simp add: unpack2_def)

lemma tcat_list_rows:
  assumes "outs \<noteq> []" and "\<And>j. j < length outs \<Longrightarrow> shape (outs ! j) = [A, B, 1, T]"
  shows "\<exists>c. tcat_list 2 outs = Inr c \<and> shape c = [A, B, length outs, T]
           \<and> (\<forall>a b j w. j < length outs \<longrightarrow> el c [a, b, j, w] = el (outs ! j) [a, b, 0, w])"
  using assms
proof (induction outs rule: list_nonempty_induct)
  case (single t)
  from single [of 0] have "shape t = [A, B, 1, T]" by simp
  then show ?case by simp
next
  case (cons t ts)
  from cons.prems [of 0] have t: "shape t = [A, B, 1, T]" by simp
  have "\<And>j. j < length ts \<Longrightarrow> shape (ts ! j) = [A, B, 1, T]"
    using cons.prems [of "Suc j" for j] by simp
  from cons.IH [OF this] obtain c where c: "tcat_list 2 ts = Inr c"
    and cs: "shape c = [A, B, length ts, T]"
    and ce: "\<And>a b j w. j < length ts \<Longrightarrow> el c [a, b, j, w] = el (ts ! j) [a, b, 0, w]"
    by blast
  from tcat2_4d [OF t cs] obtain r where r: "tcat 2 t c = Inr r"
    and rs: "shape r = [A, B, 1 + length ts, T]"
    and re: "\<And>a b h w. el r [a, b, h, w] =
               (if h < 1 then el t [a, b, h, w] else el c [a, b, h - 1, w])"
    by blast
  from cons.hyps obtain t' ts' where ts: "ts = t' # ts'" by (cases ts) auto
  have "tcat_list 2 (t # ts) = Inr r"
    using c r by (simp add: ts)
  moreover have "shape r = [A, B, length (t # ts), T]" by (simp add: rs)
  moreover have "el r [a, b, j, w] = el ((t # ts) ! j) [a, b, 0, w]" if "j < length (t # ts)" for a b j w
    using that by (cases j) (simp_all add: re ce)
  ultimately show ?case by blast
qed

section \<open>The streaming session\<close>

lemma conditioning_eq:
  "shape a ! 3 = T \<Longrightarrow> WN_2d_spect m a spect sid None = conditioning m T spect sid"
  unfolding conditioning_def by (rule WN_2d_spect_shape_only) simp

text \<open>The streaming session, from its step \<open>k\<close> on.\<close>

lemma stream_agree:
  assumes arch: "WN_2d_arch m C L kh kw" and T: "0 < T"
    and x: "shape audio = [B, n, T]"
    and c: "WN_2d_spect m (zeros [B, C, n, T]) spect sid None = Inr sp"
    and sp: "shape sp = [B, 2 * C * L, 1, T]"
    and u: "unsqueeze 1 audio = Inr u" and a2: "conv2d (start m) u = Inr a2"
    and yb: "conv2d (end_conv m) (l_output (state_after m sp (WN_2d_initial m a2 None None) L)) = Inr yb"
  shows "k + length xs \<le> n \<Longrightarrow>
     (\<And>j. j < length xs \<Longrightarrow> shape (xs ! j) = [B, 1, T]
            \<and> (\<forall>b t. el (xs ! j) [b, 0, t] = el audio [b, k + j, t])) \<Longrightarrow>
     queues_before m B C T sp (WN_2d_initial m a2 None None) k qs \<Longrightarrow>
     \<exists>outs qs'. stream m xs spect sid qs = Inr (outs, qs') \<and> length outs = length xs
       \<and> (\<forall>j<length xs. shape (outs ! j) = [2, B, 1, T]
             \<and> (\<forall>i<2. \<forall>b<B. \<forall>w<T. el (outs ! j) [i, b, 0, w] = el yb [b, i, k + j, w]))"
proof (induction xs arbitrary: k qs)
  case Nil
  then show ?case by simp
next
  case (Cons s xs)
  from Cons.prems(1) have k: "k < n" and k': "Suc k + length xs \<le> n" by simp_all
  from Cons.prems(2) [of 0] have ss: "shape s = [B, 1, T]"
    and se: "\<And>b t. el s [b, 0, t] = el audio [b, k, t]" by simp_all
  from WN_2d_forward_step [OF arch T k x c sp u a2 yb ss se Cons.prems(3)]
  obtain out qs' where
    fw: "WN_2d_forward m s spect sid (Some qs) None = Inr (RList [ITensor out, IQueues qs'])"
    and os: "shape out = [2, B, 1, T]"
    and oe: "\<forall>i<2. \<forall>b<B. \<forall>w<T. el out [i, b, 0, w] = el yb [b, i, k, w]"
    and qn: "queues_before m B C T sp (WN_2d_initial m a2 None None) (Suc k) qs'"
    by blast
  have rest: "shape (xs ! j) = [B, 1, T] \<and> (\<forall>b t. el (xs ! j) [b, 0, t] = el audio [b, Suc k + j, t])"
    if "j < length xs" for j
    using Cons.prems(2) [of "Suc j"] that by simp
  from Cons.IH [OF k' rest qn] obtain outs last where
    st: "stream m xs spect sid qs' = Inr (outs, last)" and len: "length outs = length xs"
    and each: "\<forall>j<length xs. shape (outs ! j) = [2, B, 1, T]
             \<and> (\<forall>i<2. \<forall>b<B. \<forall>w<T. el (outs ! j) [i, b, 0, w] = el yb [b, i, Suc k + j, w])"
    by blast
  have 1: "stream m (s # xs) spect sid qs = Inr (out # outs, last)"
    apply (subst stream.simps)
    apply (subst fw)
    apply (subst ebind_Inr)
    apply (subst unpack2_pair)
    apply (subst ebind_Inr)
    apply (simp add: st)
    done
  have 2: "shape ((out # outs) ! j) = [2, B, 1, T]
             \<and> (\<forall>i<2. \<forall>b<B. \<forall>w<T. el ((out # outs) ! j) [i, b, 0, w] = el yb [b, i, k + j, w])"
    if "j < length (s # xs)" for j
  proof (cases j)
    case 0
    with os oe show ?thesis by simp
  next
    case (Suc j')
    with that have "j' < length xs" by simp
    with each Suc show ?thesis by simp
  qed
  have 3: "length (out # outs) = length (s # xs)" by (simp add: len)
  from 2 have 4: "\<forall>j<length (s # xs). shape ((out # outs) ! j) = [2, B, 1, T]
             \<and> (\<forall>i<2. \<forall>b<B. \<forall>w<T. el ((out # outs) ! j) [i, b, 0, w] = el yb [b, i, k + j, w])"
    by blast
  show ?case
    by (intro exI [of _ "out # outs"] exI [of _ last] conjI) (rule 1 3 4)+
qed

lemma list_all2_less4:
  assumes "list_all2 (<) ix [a, b, c, d]"
  obtains i j k l where "ix = [i, j, k, l]" "i < a" "j < b" "k < c" "l < d"
  using assms by (auto simp: list_all2_Cons2)

section \<open>Claims about streaming inference\<close>

text \<open>
  C1, as stated, fails on an instance constructed with \<open>upsample_first\<close>: lines 336-338
  add the dimension of size 1 to the conditioning only when \<open>upsample_first\<close> is not
  set, so the conditioning \<open>[1, 4, 1]\<close> stays three-dimensional. For an input of four
  rows, \<open>[1, 4, 1]\<close>, the batch pass broadcasts it against the four rows and returns
  \<open>[2, 1, 4, 1]\<close>; each of the four streaming steps (started with \<open>[None]\<close>, the list of
  \<open>n_layers\<close> empty queues) broadcasts its single row to four rows and returns
  \<open>[2, 1, 4, 1]\<close> too, so the concatenation of the step outputs has sixteen rows and is
  not the output of the batch pass.
\<close>

theorem WN_2d_streaming_counterexample:
  "\<exists>out xs outs qs cat.
     WN_2d_forward upsampled_WN_2d (zeros [1, 4, 1]) (zeros [1, 4, 1]) None None None
       = Inr (RTensor out)
     \<and> slices (zeros [1, 4, 1]) = Inr xs
     \<and> stream upsampled_WN_2d xs (zeros [1, 4, 1]) None [None] = Inr (outs, qs)
     \<and> tcat_list 2 outs = Inr cat
     \<and> shape out = [2, 1, 4, 1] \<and> shape cat = [2, 1, 16, 1] \<and> \<not> tensor_eq cat out"
  by (simp add: upsampled_WN_2d_def WN_2d_init_def upsampled_args_def example_args_def
        new_cond_layers_def WN_2d_in_layer_def dilation_h_def dilation_w_def Let_def
        set_parameters_def set_convs_def set_conv_def new_conv_def zero_conv_def
        new_res_skip_def
        WN_2d_forward_def unsqueeze_def conv2d_def conv_channels_ok_def pad_ok_def
        WN_2d_spect_def add_speaker_embeddings_def WN_2d_initial_def
        WN_2d_layer_def WN_2d_spec_def WN_2d_cpad_def WN_2d_tail_def WN_2d_accumulate_def
        res_skip_def list_get_def pad_top_def tslice_def slice_range_def slice_bound_def
        fused_add_tanh_sigmoid_multiply_def tadd_def tmul_def tbinop_def broadcast_shapes_def
        tmap_def transpose10_def WN_2d_return_def no_spect_queue_def zeros_def
        slices_def upt4 unpack2_def tcat_def new_zeros_def tensor_eq_def)

lemma example_conditioning:
  "\<exists>sp. conditioning example_WN_2d 1 (zeros [1, 8, 1]) None = Inr sp \<and> shape sp = [1, 8, 1, 1]"
proof -
  from example_WN_2d obtain m0 where i: "WN_2d_init example_args example_values = Inr m0"
    and e: "example_WN_2d = set_parameters example_values m0" by blast
  from i have "upsample_first m0 = False" "speaker_embed_dim m0 = 0" "cond_layers m0 = []"
    "upsample_mode m0 = Nearest"
    by (auto simp: WN_2d_init_def ebind_eq_Inr example_args_def new_cond_layers_def
          split: option.splits if_splits)
  then show ?thesis
    by (simp add: conditioning_def WN_2d_spect_def add_speaker_embeddings_def e
          set_parameters_def set_convs_def interpolate_def unsqueeze_def Let_def)
qed

text \<open>
  C1, amended. Take an instance of WN\_2d (constructed with a kernel of at least one
  row and dilations of at least 1, then trained to any parameter values), an input
  \<open>[B, n, T]\<close> with \<open>n > 0\<close> and \<open>T > 0\<close>, and a spectrogram whose conditioning, as lines
  324-338 compute it for \<open>T\<close> time steps, has the shape
  \<open>[B, 2 * n_channels * n_layers, 1, T]\<close>: one row, shared by all rows of the input. Then
  the batch pass (no queues) returns an output \<open>[2, B, n, T]\<close>; the \<open>n\<close> streaming steps,
  one slice \<open>audio[:, k:k+1, :]\<close> each, started with \<open>n_layers\<close> empty queues and each
  given the queues that the step before returned, all return; and the concatenation of
  their outputs along the causal dimension is the output of the batch pass, element by
  element. Elements are real numbers here, so the two are equal and not only close.
\<close>

theorem WN_2d_streaming_equals_batch:
  assumes init: "WN_2d_init a \<theta>0 = Inr m0" and m: "m = set_parameters \<theta> m0"
    and pos: "positive_sizes a"
    and x: "shape audio = [B, n, T]" and n: "0 < n" and T: "0 < T"
    and c: "conditioning m T spect speaker_id = Inr sp"
    and sp: "shape sp = [B, 2 * n_channels m * n_layers m, 1, T]"
  shows "\<exists>out xs outs qs cat.
     WN_2d_forward m audio spect speaker_id None None = Inr (RTensor out)
     \<and> slices audio = Inr xs \<and> length xs = n
     \<and> stream m xs spect speaker_id (replicate (n_layers m) None) = Inr (outs, qs)
     \<and> tcat_list 2 outs = Inr cat
     \<and> shape out = [2, B, n, T]
     \<and> tensor_eq cat out"
proof -
  let ?C = "a_n_channels a" and ?L = "a_n_layers a"
  from WN_2d_init_arch [OF init pos, of \<theta>] obtain kw where
    arch: "WN_2d_arch m ?C ?L (a_kernel_size_h a) kw" unfolding m ..
  note ad = archD [OF arch]
  have c': "WN_2d_spect m (zeros [B, ?C, n, T]) spect speaker_id None = Inr sp"
    using c conditioning_eq [of "zeros [B, ?C, n, T]" T m spect speaker_id] by simp
  have sp': "shape sp = [B, 2 * ?C * ?L, 1, T]" using sp by (simp add: ad(1,2))
  from WN_2d_forward_batch [OF arch T n x c' sp'] obtain u a2 yb out where
    u: "unsqueeze 1 audio = Inr u" and a2: "conv2d (start m) u = Inr a2"
    and yb: "conv2d (end_conv m) (l_output (state_after m sp (WN_2d_initial m a2 None None) ?L)) = Inr yb"
    and os: "shape out = [2, B, n, T]"
    and oe: "\<forall>i b h w. el out [i, b, h, w] = el yb [b, i, h, w]"
    and fw: "WN_2d_forward m audio spect speaker_id None None = Inr (RTensor out)"
    by (elim exE conjE) (rule that; assumption)
  from slices_ok [OF x] obtain xs where xs: "slices audio = Inr xs" and len: "length xs = n"
    and each: "\<forall>k<n. shape (xs ! k) = [B, 1, T]
                 \<and> (\<forall>b t. el (xs ! k) [b, 0, t] = el audio [b, k, t])"
    by (elim exE conjE) (rule that; assumption)
  have q0: "queues_before m B ?C T sp (WN_2d_initial m a2 None None) 0 (replicate ?L None)"
    by (simp add: queues_before_def ad(2))
  have le: "0 + length xs \<le> n" by (simp add: len)
  have ea: "shape (xs ! j) = [B, 1, T] \<and> (\<forall>b t. el (xs ! j) [b, 0, t] = el audio [b, 0 + j, t])"
    if "j < length xs" for j
    using each that by (simp add: len)
  have "\<exists>outs qs'. stream m xs spect speaker_id (replicate ?L None) = Inr (outs, qs')
       \<and> length outs = length xs
       \<and> (\<forall>j<length xs. shape (outs ! j) = [2, B, 1, T]
             \<and> (\<forall>i<2. \<forall>b<B. \<forall>w<T. el (outs ! j) [i, b, 0, w] = el yb [b, i, 0 + j, w]))"
    by (rule stream_agree [OF arch T x c' sp' u a2 yb le _ q0]) (rule ea, assumption)
  then obtain outs qs where
    st: "stream m xs spect speaker_id (replicate ?L None) = Inr (outs, qs)"
    and lo: "length outs = length xs"
    and eo: "\<forall>j<length xs. shape (outs ! j) = [2, B, 1, T]
             \<and> (\<forall>i<2. \<forall>b<B. \<forall>w<T. el (outs ! j) [i, b, 0, w] = el yb [b, i, 0 + j, w])"
    by (elim exE conjE) (rule that; assumption)
  have ne: "outs \<noteq> []" using lo len n by auto
  have sh: "shape (outs ! j) = [2, B, 1, T]" if "j < length outs" for j
    using eo that lo by simp
  have "\<exists>c. tcat_list 2 outs = Inr c \<and> shape c = [2, B, length outs, T]
           \<and> (\<forall>a b j w. j < length outs \<longrightarrow> el c [a, b, j, w] = el (outs ! j) [a, b, 0, w])"
    by (rule tcat_list_rows [OF ne]) (rule sh, assumption)
  then obtain cat where cat: "tcat_list 2 outs = Inr cat"
    and cs: "shape cat = [2, B, length outs, T]"
    and ce: "\<forall>a b j w. j < length outs \<longrightarrow> el cat [a, b, j, w] = el (outs ! j) [a, b, 0, w]"
    by (elim exE conjE) (rule that; assumption)
  have eq: "tensor_eq cat out"
    unfolding tensor_eq_iff
  proof (intro conjI allI impI)
    show "shape cat = shape out" by (simp add: cs os lo len)
    fix ix assume "list_all2 (<) ix (shape cat)"
    then have "list_all2 (<) ix [2, B, n, T]" by (simp add: cs lo len)
    then obtain i b j w where ix: "ix = [i, b, j, w]" and b: "i < 2" "b < B" "j < n" "w < T"
      by (rule list_all2_less4)
    have "el cat [i, b, j, w] = el (outs ! j) [i, b, 0, w]" using ce b lo len by simp
    also have "\<dots> = el yb [b, i, j, w]" using eo b len by simp
    also have "\<dots> = el out [i, b, j, w]" using oe by simp
    finally show "el cat ix = el out ix" by (simp add: ix)
  qed
  have st': "stream m xs spect speaker_id (replicate (n_layers m) None) = Inr (outs, qs)"
    using st by (simp add: ad(2))
  show ?thesis
    by (intro exI [of _ out] exI [of _ xs] exI [of _ outs] exI [of _ qs] exI [of _ cat] conjI)
       (rule fw xs len st' cat os eq)+
qed

theorem WN_2d_streaming_equals_batch_witness:
  "\<exists>out xs outs qs cat.
     WN_2d_forward example_WN_2d (zeros [1, 2, 1]) (zeros [1, 8, 1]) None None None
       = Inr (RTensor out)
     \<and> slices (zeros [1, 2, 1]) = Inr xs \<and> length xs = 2
     \<and> stream example_WN_2d xs (zeros [1, 8, 1]) None [None, None] = Inr (outs, qs)
     \<and> tcat_list 2 outs = Inr cat
     \<and> shape out = [2, 1, 2, 1]
     \<and> tensor_eq cat out"
proof -
  from example_WN_2d obtain m0 where i: "WN_2d_init example_args example_values = Inr m0"
    and e: "example_WN_2d = set_parameters example_values m0" by blast
  from example_conditioning obtain sp where
    c: "conditioning example_WN_2d 1 (zeros [1, 8, 1]) None = Inr sp"
    and s: "shape sp = [1, 2 * n_channels example_WN_2d * n_layers example_WN_2d, 1, 1]"
    by (auto simp: example_fields)
  have x: "shape (zeros [1, 2, 1]) = [1, 2, 1]" by simp
  have r: "replicate (n_layers example_WN_2d) None = [None, None]"
    by (simp add: example_fields numeral_2_eq_2)
  from WN_2d_streaming_equals_batch [OF i e example_positive x _ _ c s]
  show ?thesis unfolding r by simp
qed

section \<open>Properties of colate\_losses\<close>

lemma loss_weight_eq:
  "loss_weight self sc k =
     (spec_weight sc (weight_attrs self) k,
      if sc (k @ ''_weight'') = None \<and> weight_attrs self (k @ ''_weight'') = None
      then [k @ '' is missing loss weight''] else [])"
  by (simp add: loss_weight_def spec_weight_def split: option.splits)

text \<open>The loop on a mapping of numbers, from any running total.\<close>

lemma colate_loop_float:
  "colate_loop self sc (float_dict d) loss out =
     Inr (if spec_positive sc (weight_attrs self) d = [] then loss
          else PyFloat ((case loss of PyNone \<Rightarrow> 0 | PyFloat l \<Rightarrow> l)
                          + spec_total sc (weight_attrs self) d),
          out @ spec_warnings sc (weight_attrs self) d)"
proof (induction d arbitrary: loss out)
  case Nil
  then show ?case
    by (simp add: float_dict_def spec_positive_def spec_warnings_def)
next
  case (Cons kv d)
  obtain k v where kv: "kv = (k, v)" by (cases kv)
  have fd: "float_dict (kv # d) = (k, PyFloat v) # float_dict d"
    by (simp add: float_dict_def kv)
  show ?case
  proof (cases "0 < spec_weight sc (weight_attrs self) k")
    case True
    then show ?thesis
      unfolding fd
      by (cases loss)
         (simp_all add: loss_weight_eq Cons.IH spec_positive_def spec_total_def
            spec_warnings_def kv algebra_simps)
  next
    case False
    then show ?thesis
      unfolding fd
      by (simp add: loss_weight_eq Cons.IH spec_positive_def spec_total_def
            spec_warnings_def kv)
  qed
qed

lemma map_of_dict_set_same: "map_of (dict_set d k v) k = Some v"
  by (induction d) auto

lemma map_of_dict_set_other: "k' \<noteq> k \<Longrightarrow> map_of (dict_set d k v) k' = map_of d k'"
  by (induction d) auto

text \<open>The loop when no weight is positive: nothing is multiplied, whatever the values.\<close>

lemma colate_loop_nonpositive:
  "(\<forall>(k, v) \<in> set d. spec_weight sc (weight_attrs self) k \<le> 0) \<Longrightarrow>
   colate_loop self sc d loss out = Inr (loss, out @ spec_warnings sc (weight_attrs self) d)"
proof (induction d arbitrary: out)
  case Nil
  then show ?case by (simp add: spec_warnings_def)
next
  case (Cons kv d)
  obtain k v where kv: "kv = (k, v)" by (cases kv)
  from Cons.prems have w: "\<not> 0 < spec_weight sc (weight_attrs self) k"
    by (simp add: kv)
  from Cons.prems have rest: "\<forall>(k, v) \<in> set d. spec_weight sc (weight_attrs self) k \<le> 0"
    by simp
  have "colate_loop self sc (kv # d) loss out =
        colate_loop self sc d loss
          (out @ (if sc (k @ ''_weight'') = None \<and> weight_attrs self (k @ ''_weight'') = None
                  then [k @ '' is missing loss weight''] else []))"
    unfolding kv colate_loop.simps loss_weight_eq using w by simp
  also have "\<dots> = Inr (loss, out @ spec_warnings sc (weight_attrs self) (kv # d))"
    unfolding Cons.IH [OF rest] by (simp add: spec_warnings_def kv)
  finally show ?case .
qed


section \<open>Claims about colate\_losses\<close>

text \<open>
  C6, as stated, fails on two inputs. With \<open>loss_dict = {'a': 2.0}\<close> and
  \<open>loss_scalars = {'a_weight': 0.0}\<close> no component has a positive weight: the sum over
  these components is \<open>0\<close>, and the code stores \<open>None\<close> under \<open>'loss'\<close>. With
  \<open>loss_dict = {'loss': 2.0}\<close> and \<open>loss_scalars = {'loss_weight': 0.0}\<close> the component
  \<open>'loss'\<close> has weight zero and does not keep its value: the total, here \<open>None\<close>, is
  stored over it.
\<close>

theorem colate_losses_sum_counterexample:
  "colate_losses \<lparr>rank = 0, weight_attrs = Map.empty\<rparr>
      [(''a'', PyFloat 2)] [''a_weight'' \<mapsto> 0] PyNone =
     Inr ([(''a'', PyFloat 2), (''loss'', PyNone)], [])
   \<and> spec_total [''a_weight'' \<mapsto> 0] Map.empty [(''a'', 2)] = 0
   \<and> PyNone \<noteq> PyFloat (spec_total [''a_weight'' \<mapsto> 0] Map.empty [(''a'', 2)])
   \<and> colate_losses \<lparr>rank = 0, weight_attrs = Map.empty\<rparr>
        [(''loss'', PyFloat 2)] [''loss_weight'' \<mapsto> 0] PyNone =
       Inr ([(''loss'', PyNone)], [])
   \<and> PyNone \<noteq> PyFloat 2"
  by (simp add: colate_losses_def loss_weight_def spec_total_def spec_positive_def
        spec_weight_def)

text \<open>
  C6, amended. For every \<open>loss_dict\<close> of numbers and every \<open>loss_scalars\<close>,
  \<open>colate_losses\<close> (called without its optional \<open>loss\<close>) returns normally. The weight it
  uses for a component is the one the specification describes: the entry of
  \<open>loss_scalars\<close> under \<open>k_weight\<close>, else the attribute \<open>k_weight\<close>, else \<open>1.0\<close>, and it
  prints one warning for each component that had neither. When at least one component
  has a strictly positive weight, the entry \<open>'loss'\<close> of the returned mapping is the sum
  of \<open>weight * value\<close> over exactly the components of strictly positive weight; when
  there is none, it is \<open>None\<close>. Every entry of the returned mapping other than \<open>'loss'\<close>
  is the entry of \<open>loss_dict\<close>: a component of zero or negative weight is left out of
  the sum and keeps its value.
\<close>

theorem colate_losses_weighted_sum:
  "colate_losses self (float_dict d) sc PyNone =
     Inr (dict_set (float_dict d) ''loss''
            (if spec_positive sc (weight_attrs self) d = [] then PyNone
             else PyFloat (spec_total sc (weight_attrs self) d)),
          spec_warnings sc (weight_attrs self) d)
   \<and> map_of (dict_set (float_dict d) ''loss''
               (if spec_positive sc (weight_attrs self) d = [] then PyNone
                else PyFloat (spec_total sc (weight_attrs self) d))) ''loss''
       = Some (if spec_positive sc (weight_attrs self) d = [] then PyNone
               else PyFloat (spec_total sc (weight_attrs self) d))
   \<and> (\<forall>k. k \<noteq> ''loss'' \<longrightarrow>
          map_of (dict_set (float_dict d) ''loss''
                    (if spec_positive sc (weight_attrs self) d = [] then PyNone
                     else PyFloat (spec_total sc (weight_attrs self) d))) k
          = map_of (float_dict d) k)
   \<and> (\<forall>k. fst (loss_weight self sc k) = spec_weight sc (weight_attrs self) k)"
proof (intro conjI allI impI)
  show "colate_losses self (float_dict d) sc PyNone =
     Inr (dict_set (float_dict d) ''loss''
            (if spec_positive sc (weight_attrs self) d = [] then PyNone
             else PyFloat (spec_total sc (weight_attrs self) d)),
          spec_warnings sc (weight_attrs self) d)"
    unfolding colate_losses_def colate_loop_float by simp
qed (simp_all add: map_of_dict_set_same map_of_dict_set_other loss_weight_eq)

text \<open>
  The example of the specification: \<open>loss_dict = {'a': 2.0, 'b': 3.0}\<close>,
  \<open>loss_scalars = {'a_weight': 0.0}\<close>, no attribute: the total is \<open>3.0\<close>, \<open>'a'\<close> is still
  \<open>2.0\<close>, and the missing weight of \<open>'b'\<close> is reported.
\<close>

theorem colate_losses_weighted_sum_witness:
  "colate_losses \<lparr>rank = 0, weight_attrs = Map.empty\<rparr>
      [(''a'', PyFloat 2), (''b'', PyFloat 3)] [''a_weight'' \<mapsto> 0] PyNone =
     Inr ([(''a'', PyFloat 2), (''b'', PyFloat 3), (''loss'', PyFloat 3)],
          [''b is missing loss weight''])"
  using colate_losses_weighted_sum
          [of "\<lparr>rank = 0, weight_attrs = Map.empty\<rparr>" "[(''a'', 2), (''b'', 3)]"
              "[''a_weight'' \<mapsto> 0]"]
  by (simp add: float_dict_def spec_positive_def spec_total_def spec_weight_def
        spec_warnings_def)

text \<open>
  C10. When every component of \<open>loss_dict\<close> resolves to a weight of at most \<open>0.0\<close> and the
  optional \<open>loss\<close> is left at \<open>None\<close>, \<open>colate_losses\<close> raises nothing (whatever the values
  of the components are) and sets \<open>loss_dict['loss']\<close> to \<open>None\<close>, not to a zero.
\<close>

theorem colate_losses_all_nonpositive:
  assumes "\<forall>(k, v) \<in> set d. fst (loss_weight self sc k) \<le> 0"
  shows "colate_losses self d sc PyNone =
           Inr (dict_set d ''loss'' PyNone, spec_warnings sc (weight_attrs self) d)
         \<and> map_of (dict_set d ''loss'' PyNone) ''loss'' = Some PyNone
         \<and> map_of (dict_set d ''loss'' PyNone) ''loss'' \<noteq> Some (PyFloat 0)"
proof -
  from assms have "\<forall>(k, v) \<in> set d. spec_weight sc (weight_attrs self) k \<le> 0"
    by (simp add: loss_weight_eq)
  then show ?thesis
    by (simp add: colate_losses_def colate_loop_nonpositive map_of_dict_set_same)
qed

theorem colate_losses_all_nonpositive_witness:
  "colate_losses \<lparr>rank = 0, weight_attrs = [''b_weight'' \<mapsto> - 1]\<rparr>
        [(''a'', PyFloat 2), (''b'', PyNone)] [''a_weight'' \<mapsto> 0] PyNone =
      Inr ([(''a'', PyFloat 2), (''b'', PyNone), (''loss'', PyNone)], [])"
proof -
  have h: "\<forall>(k, v) \<in> set [(''a'', PyFloat 2), (''b'', PyNone)].
       fst (loss_weight \<lparr>rank = 0, weight_attrs = [''b_weight'' \<mapsto> - 1]\<rparr>
              [''a_weight'' \<mapsto> 0] k) \<le> 0"
    by (simp add: loss_weight_def)
  show ?thesis
    using h colate_losses_all_nonpositive [OF h]
    by (simp add: spec_warnings_def)
qed

end
